theory Spec2Isabelle
  imports Main "HOL-Library.List_Lexorder" "HOL-Library.Char_ord"
begin

section \<open>Values, tuples and batches\<close>

text \<open>
  \<open>Value\<close>: a tuple element is one of the two range sentinels \<open>MIN\<close> and \<open>MAX\<close> or an
  ordinary value (string, number, boolean, null, array, object). The ordinary values
  are a type parameter \<open>'a\<close>. The constructors carry a \<open>V\<close> because \<open>MIN\<close> and \<open>MAX\<close>
  are binder syntax of HOL.
\<close>

datatype 'a Value = VMIN | Val 'a | VMAX

text \<open>
  Modelled from the spec: the comparators \<open>helpers/compare\<close> and \<open>helpers/compareTuple\<close>
  are not among the sources. The spec (4.C1) has \<open>MIN\<close> below everything but itself,
  \<open>MAX\<close> above everything but itself, and a total order on the values in between,
  which is the linear order of the parameter \<open>'a\<close> here.
\<close>

instantiation Value :: (linorder) linorder
begin

fun less_eq_Value :: "'a Value \<Rightarrow> 'a Value \<Rightarrow> bool" where
  "less_eq_Value VMIN _ = True"
| "less_eq_Value _ VMAX = True"
| "less_eq_Value (Val a) (Val b) = (a \<le> b)"
| "less_eq_Value _ _ = False"

definition less_Value :: "'a Value \<Rightarrow> 'a Value \<Rightarrow> bool" where
  "less_Value a b = (a \<le> b \<and> \<not> b \<le> a)"

instance
proof
  fix x y z :: "'a Value"
  show "(x < y) = (x \<le> y \<and> \<not> y \<le> x)"
    by (simp add: less_Value_def)
  show "x \<le> x"
    by (cases x) simp_all
  show "x \<le> y \<Longrightarrow> y \<le> z \<Longrightarrow> x \<le> z"
    by (cases x; cases y; cases z) simp_all
  show "x \<le> y \<Longrightarrow> y \<le> x \<Longrightarrow> x = y"
    by (cases x; cases y) simp_all
  show "x \<le> y \<or> y \<le> x"
    by (cases x; cases y) auto
qed

end

text \<open>
  Modelled from the spec: \<open>Tuple = Array<Value>\<close> is in the sources, its comparator
  \<open>compareTuple\<close> is not. The spec (4.C1) compares tuples element-wise, a tuple that is
  a proper prefix of another being the smaller: the lexicographic order on lists.
\<close>

type_synonym 'a Tuple = "'a Value list"

type_synonym TxId = string

text \<open>\<open>KeyValuePair = { key: Tuple, value: V }\<close>; \<open>value\<close> is a keyword of Isabelle.\<close>

record ('a, 'v) KeyValuePair =
  key :: "'a Tuple"
  val :: 'v

text \<open>\<open>Writes = { set?: KeyValuePair[], remove?: Tuple[] }\<close>\<close>

record ('a, 'v) Writes =
  w_set :: "('a, 'v) KeyValuePair list"
  w_remove :: "'a Tuple list"

text \<open>
  \<open>ScanArgs\<close>: every option may be absent. The arguments handed to the engine
  (\<open>ScanStorageArgs\<close>) are the same object shape with \<open>prefix\<close> absent.
\<close>

record 'a ScanArgs =
  prefix :: "'a Tuple option"
  gt :: "'a Tuple option"
  gte :: "'a Tuple option"
  lt :: "'a Tuple option"
  lte :: "'a Tuple option"
  limit :: "nat option"

text \<open>
  What a call can throw: the conflict class the retry loop tests with \<open>instanceof\<close>,
  and a plain \<open>Error\<close> with its message.
\<close>

datatype error = ReadWriteConflictError | Error string


section \<open>Sorted-array helpers\<close>

text \<open>
  \<open>helpers/binarySearch\<close>, \<open>helpers/sortedTupleArray\<close> (imported as \<open>t\<close>) and
  \<open>helpers/sortedTupleValuePairs\<close> (imported as \<open>tv\<close>) are not among the sources. The
  spec (4.C2) fixes them on sorted arrays: every set/remove/get/exists/scan is one
  binary search followed by a splice or a slice.
\<close>

datatype BinarySearchResult = found nat | closest nat

text \<open>
  Modelled from the spec: \<open>binarySearch\<close> (not among the sources) answers \<open>{found: i}\<close>
  for an exact match at index \<open>i\<close> and \<open>{closest: i}\<close> for the insertion position that
  keeps the order. It is written as the count of the leading elements below the item,
  which is that index on a sorted array (scenario 2 of the spec: on 0..5, \<open>-1\<close> gives
  closest 0, \<open>10\<close> closest 6, \<open>1.5\<close> closest 2, \<open>5\<close> found 5).
\<close>

definition binarySearch :: "'k::linorder list \<Rightarrow> 'k \<Rightarrow> BinarySearchResult" where
  "binarySearch list item =
     (let i = length (takeWhile (\<lambda>x. x < item) list)
      in if i < length list \<and> list ! i = item then found i else closest i)"

text \<open>
  Modelled from the spec: \<open>t.set\<close> (not among the sources), one search, then the tuple
  replaces the match or is spliced in at the insertion position.
\<close>

definition t_set :: "'a::linorder Tuple list \<Rightarrow> 'a Tuple \<Rightarrow> 'a Tuple list" where
  "t_set data tuple =
     (case binarySearch data tuple of
        found i \<Rightarrow> data[i := tuple]
      | closest i \<Rightarrow> take i data @ [tuple] @ drop i data)"

text \<open>
  Modelled from the spec: \<open>t.remove\<close> (not among the sources), one search, then the
  match, if any, is spliced out.
\<close>

definition t_remove :: "'a::linorder Tuple list \<Rightarrow> 'a Tuple \<Rightarrow> 'a Tuple list" where
  "t_remove data tuple =
     (case binarySearch data tuple of
        found i \<Rightarrow> take i data @ drop (Suc i) data
      | closest i \<Rightarrow> data)"

text \<open>Modelled from the spec: \<open>t.exists\<close> (not among the sources), whether the search finds the tuple.\<close>

definition t_exists :: "'a::linorder Tuple list \<Rightarrow> 'a Tuple \<Rightarrow> bool" where
  "t_exists data tuple =
     (case binarySearch data tuple of found i \<Rightarrow> True | closest i \<Rightarrow> False)"

text \<open>
  Modelled from the spec: \<open>tv.set\<close> (not among the sources), the upsert of a pair by a
  search on the keys.
\<close>

definition tv_set ::
  "('a::linorder, 'v) KeyValuePair list \<Rightarrow> 'a Tuple \<Rightarrow> 'v \<Rightarrow> ('a, 'v) KeyValuePair list" where
  "tv_set data tuple v =
     (case binarySearch (map key data) tuple of
        found i \<Rightarrow> data[i := \<lparr>key = tuple, val = v\<rparr>]
      | closest i \<Rightarrow> take i data @ [\<lparr>key = tuple, val = v\<rparr>] @ drop i data)"

text \<open>
  Modelled from the spec: \<open>tv.remove\<close> (not among the sources), the pair with the key,
  if any, is spliced out.
\<close>

definition tv_remove ::
  "('a::linorder, 'v) KeyValuePair list \<Rightarrow> 'a Tuple \<Rightarrow> ('a, 'v) KeyValuePair list" where
  "tv_remove data tuple =
     (case binarySearch (map key data) tuple of
        found i \<Rightarrow> take i data @ drop (Suc i) data
      | closest i \<Rightarrow> data)"

text \<open>Modelled from the spec: \<open>tv.exists\<close> (not among the sources), whether the search finds the key.\<close>

definition tv_exists :: "('a::linorder, 'v) KeyValuePair list \<Rightarrow> 'a Tuple \<Rightarrow> bool" where
  "tv_exists data tuple =
     (case binarySearch (map key data) tuple of found i \<Rightarrow> True | closest i \<Rightarrow> False)"

text \<open>
  Modelled from the spec: \<open>tv.get\<close> (not among the sources), the value of the pair the
  search finds, \<open>undefined\<close> (here \<open>None\<close>) when the tuple is not there.
\<close>

definition tv_get :: "('a::linorder, 'v) KeyValuePair list \<Rightarrow> 'a Tuple \<Rightarrow> 'v option" where
  "tv_get data tuple =
     (case binarySearch (map key data) tuple of
        found i \<Rightarrow> Some (val (data ! i))
      | closest i \<Rightarrow> None)"

text \<open>
  Modelled from the spec: the \<open>start\<close> of a scan (\<open>t.scan\<close> and \<open>tv.scan\<close> are not among
  the sources). The scan computes \<open>[start, end)\<close> with one search per bound; an
  exclusive lower bound that is found starts one further. The spec does not say which
  of \<open>gt\<close> and \<open>gte\<close> wins when both are given; here \<open>gt\<close> does, and no property below
  is about arguments with both.
\<close>

definition scan_start :: "'a::linorder Tuple list \<Rightarrow> 'a ScanArgs \<Rightarrow> nat" where
  "scan_start keys args =
     (case gt args of
        Some b \<Rightarrow> (case binarySearch keys b of found i \<Rightarrow> Suc i | closest i \<Rightarrow> i)
      | None \<Rightarrow>
          (case gte args of
             Some b \<Rightarrow> (case binarySearch keys b of found i \<Rightarrow> i | closest i \<Rightarrow> i)
           | None \<Rightarrow> 0))"

text \<open>
  Modelled from the spec: the \<open>end\<close> of a scan. An inclusive upper bound that is found
  ends one further; \<open>lt\<close> wins over \<open>lte\<close>.
\<close>

definition scan_end :: "'a::linorder Tuple list \<Rightarrow> 'a ScanArgs \<Rightarrow> nat" where
  "scan_end keys args =
     (case lt args of
        Some b \<Rightarrow> (case binarySearch keys b of found i \<Rightarrow> i | closest i \<Rightarrow> i)
      | None \<Rightarrow>
          (case lte args of
             Some b \<Rightarrow> (case binarySearch keys b of found i \<Rightarrow> Suc i | closest i \<Rightarrow> i)
           | None \<Rightarrow> length keys))"

text \<open>\<open>Array.prototype.slice(start, end)\<close>: empty when \<open>end \<le> start\<close>.\<close>

definition slice :: "nat \<Rightarrow> nat \<Rightarrow> 'x list \<Rightarrow> 'x list" where
  "slice start end' xs = take (end' - start) (drop start xs)"

text \<open>Modelled from the spec: \<open>limit\<close> is a cap on the number of results, applied to the slice.\<close>

definition apply_limit :: "nat option \<Rightarrow> 'x list \<Rightarrow> 'x list" where
  "apply_limit l xs = (case l of None \<Rightarrow> xs | Some n \<Rightarrow> take n xs)"

text \<open>Modelled from the spec: \<open>t.scan\<close> (not among the sources), the slice between the bounds, capped.\<close>

definition t_scan :: "'a::linorder Tuple list \<Rightarrow> 'a ScanArgs \<Rightarrow> 'a Tuple list" where
  "t_scan data args =
     apply_limit (limit args) (slice (scan_start data args) (scan_end data args) data)"

text \<open>
  Modelled from the spec: \<open>tv.scan\<close> (not among the sources), the same slice of an
  array of pairs, by their keys.
\<close>

definition tv_scan ::
  "('a::linorder, 'v) KeyValuePair list \<Rightarrow> 'a ScanArgs \<Rightarrow> ('a, 'v) KeyValuePair list" where
  "tv_scan data args =
     apply_limit (limit args)
       (slice (scan_start (map key data) args) (scan_end (map key data) args) data)"

section \<open>Subspace helpers\<close>

text \<open>
  Modelled from the spec: \<open>prependPrefixToTuple\<close> (\<open>helpers/subspaceHelpers\<close> is not
  among the sources) is \<open>prependPrefix(P, t) = P ++ t\<close> of the spec (4.C3).
\<close>

definition prependPrefixToTuple :: "'a Tuple \<Rightarrow> 'a Tuple \<Rightarrow> 'a Tuple" where
  "prependPrefixToTuple P tuple = P @ tuple"

text \<open>
  Modelled from the spec: \<open>removePrefixFromTuple\<close> (not among the sources) is
  \<open>removePrefix(P, t) = t[len(P):]\<close>, which the spec gives for \<open>P\<close> a prefix of \<open>t\<close>.
\<close>

definition removePrefixFromTuple :: "'a Tuple \<Rightarrow> 'a Tuple \<Rightarrow> 'a Tuple" where
  "removePrefixFromTuple P tuple = drop (length P) tuple"

text \<open>
  Modelled from the spec: \<open>removePrefixFromTupleValuePairs\<close> (not among the sources),
  the analogous mapping over pairs.
\<close>

definition removePrefixFromTupleValuePairs ::
  "'a Tuple \<Rightarrow> ('a, 'v) KeyValuePair list \<Rightarrow> ('a, 'v) KeyValuePair list" where
  "removePrefixFromTupleValuePairs P pairs =
     map (\<lambda>p. \<lparr>key = removePrefixFromTuple P (key p), val = val p\<rparr>) pairs"

text \<open>
  Modelled from the spec: \<open>prependPrefixToWrites\<close> (not among the sources), the
  analogous mapping over a batch.
\<close>

definition prependPrefixToWrites :: "'a Tuple \<Rightarrow> ('a, 'v) Writes \<Rightarrow> ('a, 'v) Writes" where
  "prependPrefixToWrites P ws =
     \<lparr>w_set = map (\<lambda>p. \<lparr>key = prependPrefixToTuple P (key p), val = val p\<rparr>) (w_set ws),
      w_remove = map (prependPrefixToTuple P) (w_remove ws)\<rparr>"

text \<open>
  Modelled from the spec: \<open>normalizeSubspaceScanArgs\<close> (not among the sources) prepends
  \<open>P\<close> to each bound, passes \<open>limit\<close> through, and turns arguments with only \<open>prefix\<close>
  into \<open>gte = P ++ prefix ++ [MIN]\<close>, \<open>lte = P ++ prefix ++ [MAX]\<close> (spec, 4.C3). The
  spec is silent on \<open>prefix\<close> given together with a bound; the engine's arguments carry
  no \<open>prefix\<close> (spec, 6), so the bounds alone are kept in that case, and no property
  below is about such arguments.
\<close>

definition normalizeSubspaceScanArgs :: "'a Tuple \<Rightarrow> 'a ScanArgs \<Rightarrow> 'a ScanArgs" where
  "normalizeSubspaceScanArgs P args =
     (case (prefix args, gt args, gte args, lt args, lte args) of
        (Some p, None, None, None, None) \<Rightarrow>
          \<lparr>prefix = None, gt = None,
           gte = Some (prependPrefixToTuple P (p @ [VMIN])), lt = None,
           lte = Some (prependPrefixToTuple P (p @ [VMAX])), limit = limit args\<rparr>
      | _ \<Rightarrow>
          \<lparr>prefix = None,
           gt = map_option (prependPrefixToTuple P) (gt args),
           gte = map_option (prependPrefixToTuple P) (gte args),
           lt = map_option (prependPrefixToTuple P) (lt args),
           lte = map_option (prependPrefixToTuple P) (lte args),
           limit = limit args\<rparr>)"


section \<open>The engine interface\<close>

text \<open>
  \<open>TupleDatabaseApi\<close> is the interface the client is constructed over; the client only
  calls its methods. An engine is therefore a record of its methods, each a function
  of the state \<open>'w\<close> of everything outside the client and transaction objects (the
  engine's storage and logs, and whatever else user code can reach), returning what
  the call returns or throws together with the new state. \<open>subscribe\<close> and \<open>close\<close>
  take no part in what follows. An absent batch field and an empty one are not
  told apart (\<open>remove || []\<close> in \<open>write\<close>).
\<close>

record ('a, 'v, 'w) TupleDatabaseApi =
  db_scan :: "'a ScanArgs \<Rightarrow> TxId option \<Rightarrow> 'w \<Rightarrow> (error + ('a, 'v) KeyValuePair list) \<times> 'w"
  db_commit :: "('a, 'v) Writes \<Rightarrow> TxId option \<Rightarrow> 'w \<Rightarrow> (error + unit) \<times> 'w"
  db_cancel :: "TxId \<Rightarrow> 'w \<Rightarrow> (error + unit) \<times> 'w"

section \<open>TupleDatabaseClient\<close>

record ('a, 'v, 'w) TupleDatabaseClient =
  db :: "('a, 'v, 'w) TupleDatabaseApi"
  subspacePrefix :: "'a Tuple"

record ('a, 'v, 'w) TupleTransaction =
  tx_db :: "('a, 'v, 'w) TupleDatabaseApi"
  tx_subspacePrefix :: "'a Tuple"
  tx_id :: TxId
  committed :: bool
  canceled :: bool
  writes :: "('a, 'v) Writes"

text \<open>
  \<open>TupleTransactionSubspace\<close> holds a reference to the transaction it was made from and
  its own prefix; the transaction stays where it is, so the view is its prefix.
\<close>

record 'a TupleTransactionSubspace =
  ts_subspacePrefix :: "'a Tuple"

definition TupleDatabaseClient_scan ::
  "('a::linorder, 'v, 'w) TupleDatabaseClient \<Rightarrow> 'a ScanArgs \<Rightarrow> TxId option \<Rightarrow> 'w
     \<Rightarrow> (error + ('a, 'v) KeyValuePair list) \<times> 'w" where
  "TupleDatabaseClient_scan c args txId w =
     (let storageScanArgs = normalizeSubspaceScanArgs (subspacePrefix c) args
      in case db_scan (db c) storageScanArgs txId w of
           (Inl e, w') \<Rightarrow> (Inl e, w')
         | (Inr pairs, w') \<Rightarrow>
             (Inr (removePrefixFromTupleValuePairs (subspacePrefix c) pairs), w'))"

definition TupleDatabaseClient_commit ::
  "('a, 'v, 'w) TupleDatabaseClient \<Rightarrow> ('a, 'v) Writes \<Rightarrow> TxId option \<Rightarrow> 'w
     \<Rightarrow> (error + unit) \<times> 'w" where
  "TupleDatabaseClient_commit c ws txId w =
     (let prefixedWrites = prependPrefixToWrites (subspacePrefix c) ws
      in db_commit (db c) prefixedWrites txId w)"

definition TupleDatabaseClient_cancel ::
  "('a, 'v, 'w) TupleDatabaseClient \<Rightarrow> TxId \<Rightarrow> 'w \<Rightarrow> (error + unit) \<times> 'w" where
  "TupleDatabaseClient_cancel c txId w = db_cancel (db c) txId w"

text \<open>The range of a single tuple, \<open>{ gte: tuple, lte: tuple }\<close>.\<close>

definition point_range :: "'a Tuple \<Rightarrow> 'a ScanArgs" where
  "point_range tuple =
     \<lparr>prefix = None, gt = None, gte = Some tuple, lt = None, lte = Some tuple, limit = None\<rparr>"

definition TupleDatabaseClient_get ::
  "('a::linorder, 'v, 'w) TupleDatabaseClient \<Rightarrow> 'a Tuple \<Rightarrow> TxId option \<Rightarrow> 'w
     \<Rightarrow> (error + 'v option) \<times> 'w" where
  "TupleDatabaseClient_get c tuple txId w =
     (case TupleDatabaseClient_scan c (point_range tuple) txId w of
        (Inl e, w') \<Rightarrow> (Inl e, w')
      | (Inr items, w') \<Rightarrow>
          (if length items = 0 then (Inr None, w')
           else if length items > 1 then (Inl (Error ''Get expects only one value.''), w')
           else (Inr (Some (val (items ! 0))), w')))"

definition TupleDatabaseClient_exists ::
  "('a::linorder, 'v, 'w) TupleDatabaseClient \<Rightarrow> 'a Tuple \<Rightarrow> TxId option \<Rightarrow> 'w
     \<Rightarrow> (error + bool) \<times> 'w" where
  "TupleDatabaseClient_exists c tuple txId w =
     (case TupleDatabaseClient_scan c (point_range tuple) txId w of
        (Inl e, w') \<Rightarrow> (Inl e, w')
      | (Inr items, w') \<Rightarrow>
          (if length items = 0 then (Inr False, w') else (Inr (length items \<ge> 1), w')))"

definition TupleDatabaseClient_subspace ::
  "('a, 'v, 'w) TupleDatabaseClient \<Rightarrow> 'a Tuple \<Rightarrow> ('a, 'v, 'w) TupleDatabaseClient" where
  "TupleDatabaseClient_subspace c prefix' =
     (let subspacePrefix' = subspacePrefix c @ prefix'
      in \<lparr>db = db c, subspacePrefix = subspacePrefix'\<rparr>)"

text \<open>
  \<open>transact(txId?)\<close>: \<open>txId || randomId()\<close> takes the given id unless it is absent or the
  empty string. \<open>randomId\<close> is not among the sources: it is a parameter, a generator
  reading and advancing the outside state.
\<close>

definition TupleDatabaseClient_transact ::
  "('w \<Rightarrow> TxId \<times> 'w) \<Rightarrow> ('a, 'v, 'w) TupleDatabaseClient \<Rightarrow> TxId option \<Rightarrow> 'w
     \<Rightarrow> ('a, 'v, 'w) TupleTransaction \<times> 'w" where
  "TupleDatabaseClient_transact randomId c txId w =
     (let (id', w') = (case txId of
                         Some i \<Rightarrow> if i \<noteq> [] then (i, w) else randomId w
                       | None \<Rightarrow> randomId w)
      in (\<lparr>tx_db = db c, tx_subspacePrefix = subspacePrefix c, tx_id = id',
           committed = False, canceled = False,
           writes = \<lparr>w_set = [], w_remove = []\<rparr>\<rparr>, w'))"

section \<open>TupleTransaction\<close>

definition checkActive :: "('a, 'v, 'w) TupleTransaction \<Rightarrow> error + unit" where
  "checkActive tx =
     (if committed tx then Inl (Error ''Transaction already committed'')
      else if canceled tx then Inl (Error ''Transaction already canceled'')
      else Inr ())"

definition TupleTransaction_scan ::
  "('a::linorder, 'v, 'w) TupleTransaction \<Rightarrow> 'a ScanArgs \<Rightarrow> 'w
     \<Rightarrow> (error + ('a, 'v) KeyValuePair list) \<times> 'w" where
  "TupleTransaction_scan tx args w =
     (case checkActive tx of
        Inl e \<Rightarrow> (Inl e, w)
      | Inr _ \<Rightarrow>
          (let storageScanArgs = normalizeSubspaceScanArgs (tx_subspacePrefix tx) args
           in case db_scan (tx_db tx) storageScanArgs (Some (tx_id tx)) w of
                (Inl e, w') \<Rightarrow> (Inl e, w')
              | (Inr pairs, w') \<Rightarrow>
                  (let result = removePrefixFromTupleValuePairs (tx_subspacePrefix tx) pairs;
                       sets = tv_scan (w_set (writes tx)) storageScanArgs;
                       result = foldl (\<lambda>r p. tv_set r
                                  (removePrefixFromTuple (tx_subspacePrefix tx) (key p)) (val p))
                                  result sets;
                       removes = t_scan (w_remove (writes tx)) storageScanArgs;
                       result = foldl (\<lambda>r fullTuple. tv_remove r
                                  (removePrefixFromTuple (tx_subspacePrefix tx) fullTuple))
                                  result removes
                   in (Inr result, w'))))"

definition TupleTransaction_get ::
  "('a::linorder, 'v, 'w) TupleTransaction \<Rightarrow> 'a Tuple \<Rightarrow> 'w \<Rightarrow> (error + 'v option) \<times> 'w" where
  "TupleTransaction_get tx tuple w =
     (case checkActive tx of
        Inl e \<Rightarrow> (Inl e, w)
      | Inr _ \<Rightarrow>
          (let fullTuple = prependPrefixToTuple (tx_subspacePrefix tx) tuple
           in if tv_exists (w_set (writes tx)) fullTuple
              then (Inr (tv_get (w_set (writes tx)) fullTuple), w)
              else if t_exists (w_remove (writes tx)) fullTuple then (Inr None, w)
              else case db_scan (tx_db tx) (point_range fullTuple) (Some (tx_id tx)) w of
                     (Inl e, w') \<Rightarrow> (Inl e, w')
                   | (Inr items, w') \<Rightarrow>
                       (if length items = 0 then (Inr None, w')
                        else if length items > 1
                        then (Inl (Error ''Get expects only one value.''), w')
                        else (Inr (Some (val (items ! 0))), w'))))"

definition TupleTransaction_exists ::
  "('a::linorder, 'v, 'w) TupleTransaction \<Rightarrow> 'a Tuple \<Rightarrow> 'w \<Rightarrow> (error + bool) \<times> 'w" where
  "TupleTransaction_exists tx tuple w =
     (case checkActive tx of
        Inl e \<Rightarrow> (Inl e, w)
      | Inr _ \<Rightarrow>
          (let fullTuple = prependPrefixToTuple (tx_subspacePrefix tx) tuple
           in if tv_exists (w_set (writes tx)) fullTuple then (Inr True, w)
              else if t_exists (w_remove (writes tx)) fullTuple then (Inr False, w)
              else case db_scan (tx_db tx) (point_range fullTuple) (Some (tx_id tx)) w of
                     (Inl e, w') \<Rightarrow> (Inl e, w')
                   | (Inr items, w') \<Rightarrow>
                       (if length items = 0 then (Inr False, w')
                        else (Inr (length items \<ge> 1), w'))))"

text \<open>
  \<open>set\<close>, \<open>remove\<close> and \<open>write\<close> touch the transaction only and return \<open>this\<close>: the
  result is what was thrown, if anything, and the transaction as the call leaves it.
\<close>

definition TupleTransaction_set ::
  "('a::linorder, 'v, 'w) TupleTransaction \<Rightarrow> 'a Tuple \<Rightarrow> 'v
     \<Rightarrow> (error + unit) \<times> ('a, 'v, 'w) TupleTransaction" where
  "TupleTransaction_set tx tuple v =
     (case checkActive tx of
        Inl e \<Rightarrow> (Inl e, tx)
      | Inr _ \<Rightarrow>
          (let fullTuple = prependPrefixToTuple (tx_subspacePrefix tx) tuple;
               removes = t_remove (w_remove (writes tx)) fullTuple;
               sets = tv_set (w_set (writes tx)) fullTuple v
           in (Inr (), tx\<lparr>writes := \<lparr>w_set = sets, w_remove = removes\<rparr>\<rparr>)))"

definition TupleTransaction_remove ::
  "('a::linorder, 'v, 'w) TupleTransaction \<Rightarrow> 'a Tuple
     \<Rightarrow> (error + unit) \<times> ('a, 'v, 'w) TupleTransaction" where
  "TupleTransaction_remove tx tuple =
     (case checkActive tx of
        Inl e \<Rightarrow> (Inl e, tx)
      | Inr _ \<Rightarrow>
          (let fullTuple = prependPrefixToTuple (tx_subspacePrefix tx) tuple;
               sets = tv_remove (w_set (writes tx)) fullTuple;
               removes = t_set (w_remove (writes tx)) fullTuple
           in (Inr (), tx\<lparr>writes := \<lparr>w_set = sets, w_remove = removes\<rparr>\<rparr>)))"

text \<open>The two \<open>for\<close> loops of \<open>write\<close>; a throw inside a loop ends the call there.\<close>

fun write_removes ::
  "('a::linorder, 'v, 'w) TupleTransaction \<Rightarrow> 'a Tuple list
     \<Rightarrow> (error + unit) \<times> ('a, 'v, 'w) TupleTransaction" where
  "write_removes tx [] = (Inr (), tx)"
| "write_removes tx (tuple # rest) =
     (case TupleTransaction_remove tx tuple of
        (Inl e, tx') \<Rightarrow> (Inl e, tx')
      | (Inr _, tx') \<Rightarrow> write_removes tx' rest)"

fun write_sets ::
  "('a::linorder, 'v, 'w) TupleTransaction \<Rightarrow> ('a, 'v) KeyValuePair list
     \<Rightarrow> (error + unit) \<times> ('a, 'v, 'w) TupleTransaction" where
  "write_sets tx [] = (Inr (), tx)"
| "write_sets tx (p # rest) =
     (case TupleTransaction_set tx (key p) (val p) of
        (Inl e, tx') \<Rightarrow> (Inl e, tx')
      | (Inr _, tx') \<Rightarrow> write_sets tx' rest)"

definition TupleTransaction_write ::
  "('a::linorder, 'v, 'w) TupleTransaction \<Rightarrow> ('a, 'v) Writes
     \<Rightarrow> (error + unit) \<times> ('a, 'v, 'w) TupleTransaction" where
  "TupleTransaction_write tx ws =
     (case checkActive tx of
        Inl e \<Rightarrow> (Inl e, tx)
      | Inr _ \<Rightarrow>
          (case write_removes tx (w_remove ws) of
             (Inl e, tx') \<Rightarrow> (Inl e, tx')
           | (Inr _, tx') \<Rightarrow> write_sets tx' (w_set ws)))"

definition TupleTransaction_commit ::
  "('a, 'v, 'w) TupleTransaction \<Rightarrow> 'w
     \<Rightarrow> (error + unit) \<times> ('a, 'v, 'w) TupleTransaction \<times> 'w" where
  "TupleTransaction_commit tx w =
     (case checkActive tx of
        Inl e \<Rightarrow> (Inl e, tx, w)
      | Inr _ \<Rightarrow>
          (let tx' = tx\<lparr>committed := True\<rparr>
           in case db_commit (tx_db tx') (writes tx') (Some (tx_id tx')) w of
                (r, w') \<Rightarrow> (r, tx', w')))"

definition TupleTransaction_cancel ::
  "('a, 'v, 'w) TupleTransaction \<Rightarrow> 'w
     \<Rightarrow> (error + unit) \<times> ('a, 'v, 'w) TupleTransaction \<times> 'w" where
  "TupleTransaction_cancel tx w =
     (case checkActive tx of
        Inl e \<Rightarrow> (Inl e, tx, w)
      | Inr _ \<Rightarrow>
          (let tx' = tx\<lparr>canceled := True\<rparr>
           in case db_cancel (tx_db tx') (tx_id tx') w of
                (r, w') \<Rightarrow> (r, tx', w')))"

definition TupleTransaction_subspace ::
  "('a, 'v, 'w) TupleTransaction \<Rightarrow> 'a Tuple \<Rightarrow> error + 'a TupleTransactionSubspace" where
  "TupleTransaction_subspace tx prefix' =
     (case checkActive tx of
        Inl e \<Rightarrow> Inl e
      | Inr _ \<Rightarrow> Inr \<lparr>ts_subspacePrefix = prefix'\<rparr>)"

section \<open>The retry wrapper\<close>

text \<open>
  \<open>retry(retries, fn)\<close>: the \<open>while (true)\<close> loop as a recursion on the counter, which
  goes down by one on every conflict and stops the loop at zero. \<open>retries\<close> is a
  JavaScript number; the integers are modelled.
\<close>

function retry :: "int \<Rightarrow> ('w \<Rightarrow> (error + 'o) \<times> 'w) \<Rightarrow> 'w \<Rightarrow> (error + 'o) \<times> 'w" where
  "retry retries fn w =
     (case fn w of
        (Inr result, w') \<Rightarrow> (Inr result, w')
      | (Inl err, w') \<Rightarrow>
          (if retries \<le> 0 then (Inl err, w')
           else if err \<noteq> ReadWriteConflictError then (Inl err, w')
           else retry (retries - 1) fn w'))"
  by pat_completeness auto
termination
  by (relation "measure (\<lambda>(retries, fn, w). nat retries)") auto

text \<open>
  One run of the closure \<open>transactionalQuery\<close> hands to \<open>retry\<close>. The user function
  \<open>fn\<close> (with its further arguments) is what it returns or throws, the transaction as
  it leaves it and the state outside as it leaves it. The transaction the closure
  opened is returned beside the outcome, as the run leaves it.
\<close>

definition transactionalQuery_attempt ::
  "('w \<Rightarrow> TxId \<times> 'w)
     \<Rightarrow> (('a, 'v, 'w) TupleTransaction \<Rightarrow> 'w \<Rightarrow> (error + 'o) \<times> ('a, 'v, 'w) TupleTransaction \<times> 'w)
     \<Rightarrow> ('a, 'v, 'w) TupleDatabaseClient \<Rightarrow> 'w
     \<Rightarrow> (error + 'o) \<times> ('a, 'v, 'w) TupleTransaction \<times> 'w" where
  "transactionalQuery_attempt randomId fn c w =
     (case TupleDatabaseClient_transact randomId c None w of
        (tx, w1) \<Rightarrow>
          (case fn tx w1 of
             (Inl err, tx', w2) \<Rightarrow>
               (case TupleTransaction_cancel tx' w2 of
                  (Inl e, tx'', w3) \<Rightarrow> (Inl e, tx'', w3)
                | (Inr _, tx'', w3) \<Rightarrow> (Inl err, tx'', w3))
           | (Inr result, tx', w2) \<Rightarrow>
               (case TupleTransaction_commit tx' w2 of
                  (Inl e, tx'', w3) \<Rightarrow> (Inl e, tx'', w3)
                | (Inr _, tx'', w3) \<Rightarrow> (Inr result, tx'', w3))))"

text \<open>
  \<open>dbOrTx\<close>: a client, or a transaction (an object with a \<open>set\<close> method), to which
  \<open>fn\<close> is applied directly.
\<close>

datatype ('a, 'v, 'w) DbOrTx =
  Db "('a, 'v, 'w) TupleDatabaseClient"
| Tx "('a, 'v, 'w) TupleTransaction"

definition transactionalQuery ::
  "('w \<Rightarrow> TxId \<times> 'w) \<Rightarrow> int option
     \<Rightarrow> (('a, 'v, 'w) TupleTransaction \<Rightarrow> 'w \<Rightarrow> (error + 'o) \<times> ('a, 'v, 'w) TupleTransaction \<times> 'w)
     \<Rightarrow> ('a, 'v, 'w) DbOrTx \<Rightarrow> 'w
     \<Rightarrow> (error + 'o) \<times> ('a, 'v, 'w) DbOrTx \<times> 'w" where
  "transactionalQuery randomId retries_arg fn dbOrTx w =
     (let retries = (case retries_arg of None \<Rightarrow> 5 | Some n \<Rightarrow> n)
      in case dbOrTx of
           Tx tx \<Rightarrow> (case fn tx w of (r, tx', w') \<Rightarrow> (r, Tx tx', w'))
         | Db c \<Rightarrow>
             (case retry retries
                     (\<lambda>w. case transactionalQuery_attempt randomId fn c w of
                             (r, tx, w') \<Rightarrow> (r, w')) w of
                (r, w') \<Rightarrow> (r, Db c, w')))"


section \<open>The asynchronous family\<close>

text \<open>
  \<open>AsyncTupleDatabaseClient.ts\<close>, translated on its own. An \<open>async\<close> method returns a
  promise; the model records how the promise settles once the call has run to its end,
  an \<open>await\<close> taking the value of a fulfilled promise and rejecting the caller with the
  reason of a rejected one. A \<open>throw\<close> inside an \<open>async\<close> method rejects its promise.
  The methods that are not \<open>async\<close> (\<open>set\<close>, \<open>remove\<close>, \<open>write\<close>, \<open>subspace\<close>,
  \<open>transact\<close>) return and throw as in the synchronous family.
\<close>

datatype 'r Promise = Fulfilled 'r | Rejected error

record ('a, 'v, 'w) AsyncTupleDatabaseApi =
  adb_scan :: "'a ScanArgs \<Rightarrow> TxId option \<Rightarrow> 'w \<Rightarrow> ('a, 'v) KeyValuePair list Promise \<times> 'w"
  adb_commit :: "('a, 'v) Writes \<Rightarrow> TxId option \<Rightarrow> 'w \<Rightarrow> unit Promise \<times> 'w"
  adb_cancel :: "TxId \<Rightarrow> 'w \<Rightarrow> unit Promise \<times> 'w"

record ('a, 'v, 'w) AsyncTupleDatabaseClient =
  adb :: "('a, 'v, 'w) AsyncTupleDatabaseApi"
  a_subspacePrefix :: "'a Tuple"

record ('a, 'v, 'w) AsyncTupleTransaction =
  atx_db :: "('a, 'v, 'w) AsyncTupleDatabaseApi"
  atx_subspacePrefix :: "'a Tuple"
  atx_id :: TxId
  a_committed :: bool
  a_canceled :: bool
  a_writes :: "('a, 'v) Writes"

definition AsyncTupleDatabaseClient_scan ::
  "('a::linorder, 'v, 'w) AsyncTupleDatabaseClient \<Rightarrow> 'a ScanArgs \<Rightarrow> TxId option \<Rightarrow> 'w
     \<Rightarrow> ('a, 'v) KeyValuePair list Promise \<times> 'w" where
  "AsyncTupleDatabaseClient_scan c args txId w =
     (let storageScanArgs = normalizeSubspaceScanArgs (a_subspacePrefix c) args
      in case adb_scan (adb c) storageScanArgs txId w of
           (Rejected e, w') \<Rightarrow> (Rejected e, w')
         | (Fulfilled pairs, w') \<Rightarrow>
             (Fulfilled (removePrefixFromTupleValuePairs (a_subspacePrefix c) pairs), w'))"

definition AsyncTupleDatabaseClient_commit ::
  "('a, 'v, 'w) AsyncTupleDatabaseClient \<Rightarrow> ('a, 'v) Writes \<Rightarrow> TxId option \<Rightarrow> 'w
     \<Rightarrow> unit Promise \<times> 'w" where
  "AsyncTupleDatabaseClient_commit c ws txId w =
     (let prefixedWrites = prependPrefixToWrites (a_subspacePrefix c) ws
      in case adb_commit (adb c) prefixedWrites txId w of
           (Rejected e, w') \<Rightarrow> (Rejected e, w')
         | (Fulfilled _, w') \<Rightarrow> (Fulfilled (), w'))"

definition AsyncTupleDatabaseClient_cancel ::
  "('a, 'v, 'w) AsyncTupleDatabaseClient \<Rightarrow> TxId \<Rightarrow> 'w \<Rightarrow> unit Promise \<times> 'w" where
  "AsyncTupleDatabaseClient_cancel c txId w = adb_cancel (adb c) txId w"

definition AsyncTupleDatabaseClient_get ::
  "('a::linorder, 'v, 'w) AsyncTupleDatabaseClient \<Rightarrow> 'a Tuple \<Rightarrow> TxId option \<Rightarrow> 'w
     \<Rightarrow> 'v option Promise \<times> 'w" where
  "AsyncTupleDatabaseClient_get c tuple txId w =
     (case AsyncTupleDatabaseClient_scan c (point_range tuple) txId w of
        (Rejected e, w') \<Rightarrow> (Rejected e, w')
      | (Fulfilled items, w') \<Rightarrow>
          (if length items = 0 then (Fulfilled None, w')
           else if length items > 1 then (Rejected (Error ''Get expects only one value.''), w')
           else (Fulfilled (Some (val (items ! 0))), w')))"

definition AsyncTupleDatabaseClient_exists ::
  "('a::linorder, 'v, 'w) AsyncTupleDatabaseClient \<Rightarrow> 'a Tuple \<Rightarrow> TxId option \<Rightarrow> 'w
     \<Rightarrow> bool Promise \<times> 'w" where
  "AsyncTupleDatabaseClient_exists c tuple txId w =
     (case AsyncTupleDatabaseClient_scan c (point_range tuple) txId w of
        (Rejected e, w') \<Rightarrow> (Rejected e, w')
      | (Fulfilled items, w') \<Rightarrow>
          (if length items = 0 then (Fulfilled False, w')
           else (Fulfilled (length items \<ge> 1), w')))"

definition AsyncTupleDatabaseClient_subspace ::
  "('a, 'v, 'w) AsyncTupleDatabaseClient \<Rightarrow> 'a Tuple
     \<Rightarrow> ('a, 'v, 'w) AsyncTupleDatabaseClient" where
  "AsyncTupleDatabaseClient_subspace c prefix' =
     (let subspacePrefix' = a_subspacePrefix c @ prefix'
      in \<lparr>adb = adb c, a_subspacePrefix = subspacePrefix'\<rparr>)"

definition AsyncTupleDatabaseClient_transact ::
  "('w \<Rightarrow> TxId \<times> 'w) \<Rightarrow> ('a, 'v, 'w) AsyncTupleDatabaseClient \<Rightarrow> TxId option \<Rightarrow> 'w
     \<Rightarrow> ('a, 'v, 'w) AsyncTupleTransaction \<times> 'w" where
  "AsyncTupleDatabaseClient_transact randomId c txId w =
     (let (id', w') = (case txId of
                         Some i \<Rightarrow> if i \<noteq> [] then (i, w) else randomId w
                       | None \<Rightarrow> randomId w)
      in (\<lparr>atx_db = adb c, atx_subspacePrefix = a_subspacePrefix c, atx_id = id',
           a_committed = False, a_canceled = False,
           a_writes = \<lparr>w_set = [], w_remove = []\<rparr>\<rparr>, w'))"

definition a_checkActive :: "('a, 'v, 'w) AsyncTupleTransaction \<Rightarrow> error + unit" where
  "a_checkActive tx =
     (if a_committed tx then Inl (Error ''Transaction already committed'')
      else if a_canceled tx then Inl (Error ''Transaction already canceled'')
      else Inr ())"

definition AsyncTupleTransaction_scan ::
  "('a::linorder, 'v, 'w) AsyncTupleTransaction \<Rightarrow> 'a ScanArgs \<Rightarrow> 'w
     \<Rightarrow> ('a, 'v) KeyValuePair list Promise \<times> 'w" where
  "AsyncTupleTransaction_scan tx args w =
     (case a_checkActive tx of
        Inl e \<Rightarrow> (Rejected e, w)
      | Inr _ \<Rightarrow>
          (let storageScanArgs = normalizeSubspaceScanArgs (atx_subspacePrefix tx) args
           in case adb_scan (atx_db tx) storageScanArgs (Some (atx_id tx)) w of
                (Rejected e, w') \<Rightarrow> (Rejected e, w')
              | (Fulfilled pairs, w') \<Rightarrow>
                  (let result = removePrefixFromTupleValuePairs (atx_subspacePrefix tx) pairs;
                       sets = tv_scan (w_set (a_writes tx)) storageScanArgs;
                       result = foldl (\<lambda>r p. tv_set r
                                  (removePrefixFromTuple (atx_subspacePrefix tx) (key p)) (val p))
                                  result sets;
                       removes = t_scan (w_remove (a_writes tx)) storageScanArgs;
                       result = foldl (\<lambda>r fullTuple. tv_remove r
                                  (removePrefixFromTuple (atx_subspacePrefix tx) fullTuple))
                                  result removes
                   in (Fulfilled result, w'))))"

definition AsyncTupleTransaction_get ::
  "('a::linorder, 'v, 'w) AsyncTupleTransaction \<Rightarrow> 'a Tuple \<Rightarrow> 'w
     \<Rightarrow> 'v option Promise \<times> 'w" where
  "AsyncTupleTransaction_get tx tuple w =
     (case a_checkActive tx of
        Inl e \<Rightarrow> (Rejected e, w)
      | Inr _ \<Rightarrow>
          (let fullTuple = prependPrefixToTuple (atx_subspacePrefix tx) tuple
           in if tv_exists (w_set (a_writes tx)) fullTuple
              then (Fulfilled (tv_get (w_set (a_writes tx)) fullTuple), w)
              else if t_exists (w_remove (a_writes tx)) fullTuple then (Fulfilled None, w)
              else case adb_scan (atx_db tx) (point_range fullTuple) (Some (atx_id tx)) w of
                     (Rejected e, w') \<Rightarrow> (Rejected e, w')
                   | (Fulfilled items, w') \<Rightarrow>
                       (if length items = 0 then (Fulfilled None, w')
                        else if length items > 1
                        then (Rejected (Error ''Get expects only one value.''), w')
                        else (Fulfilled (Some (val (items ! 0))), w'))))"

definition AsyncTupleTransaction_exists ::
  "('a::linorder, 'v, 'w) AsyncTupleTransaction \<Rightarrow> 'a Tuple \<Rightarrow> 'w \<Rightarrow> bool Promise \<times> 'w" where
  "AsyncTupleTransaction_exists tx tuple w =
     (case a_checkActive tx of
        Inl e \<Rightarrow> (Rejected e, w)
      | Inr _ \<Rightarrow>
          (let fullTuple = prependPrefixToTuple (atx_subspacePrefix tx) tuple
           in if tv_exists (w_set (a_writes tx)) fullTuple then (Fulfilled True, w)
              else if t_exists (w_remove (a_writes tx)) fullTuple then (Fulfilled False, w)
              else case adb_scan (atx_db tx) (point_range fullTuple) (Some (atx_id tx)) w of
                     (Rejected e, w') \<Rightarrow> (Rejected e, w')
                   | (Fulfilled items, w') \<Rightarrow>
                       (if length items = 0 then (Fulfilled False, w')
                        else (Fulfilled (length items \<ge> 1), w'))))"

definition AsyncTupleTransaction_set ::
  "('a::linorder, 'v, 'w) AsyncTupleTransaction \<Rightarrow> 'a Tuple \<Rightarrow> 'v
     \<Rightarrow> (error + unit) \<times> ('a, 'v, 'w) AsyncTupleTransaction" where
  "AsyncTupleTransaction_set tx tuple v =
     (case a_checkActive tx of
        Inl e \<Rightarrow> (Inl e, tx)
      | Inr _ \<Rightarrow>
          (let fullTuple = prependPrefixToTuple (atx_subspacePrefix tx) tuple;
               removes = t_remove (w_remove (a_writes tx)) fullTuple;
               sets = tv_set (w_set (a_writes tx)) fullTuple v
           in (Inr (), tx\<lparr>a_writes := \<lparr>w_set = sets, w_remove = removes\<rparr>\<rparr>)))"

definition AsyncTupleTransaction_remove ::
  "('a::linorder, 'v, 'w) AsyncTupleTransaction \<Rightarrow> 'a Tuple
     \<Rightarrow> (error + unit) \<times> ('a, 'v, 'w) AsyncTupleTransaction" where
  "AsyncTupleTransaction_remove tx tuple =
     (case a_checkActive tx of
        Inl e \<Rightarrow> (Inl e, tx)
      | Inr _ \<Rightarrow>
          (let fullTuple = prependPrefixToTuple (atx_subspacePrefix tx) tuple;
               sets = tv_remove (w_set (a_writes tx)) fullTuple;
               removes = t_set (w_remove (a_writes tx)) fullTuple
           in (Inr (), tx\<lparr>a_writes := \<lparr>w_set = sets, w_remove = removes\<rparr>\<rparr>)))"

fun a_write_removes ::
  "('a::linorder, 'v, 'w) AsyncTupleTransaction \<Rightarrow> 'a Tuple list
     \<Rightarrow> (error + unit) \<times> ('a, 'v, 'w) AsyncTupleTransaction" where
  "a_write_removes tx [] = (Inr (), tx)"
| "a_write_removes tx (tuple # rest) =
     (case AsyncTupleTransaction_remove tx tuple of
        (Inl e, tx') \<Rightarrow> (Inl e, tx')
      | (Inr _, tx') \<Rightarrow> a_write_removes tx' rest)"

fun a_write_sets ::
  "('a::linorder, 'v, 'w) AsyncTupleTransaction \<Rightarrow> ('a, 'v) KeyValuePair list
     \<Rightarrow> (error + unit) \<times> ('a, 'v, 'w) AsyncTupleTransaction" where
  "a_write_sets tx [] = (Inr (), tx)"
| "a_write_sets tx (p # rest) =
     (case AsyncTupleTransaction_set tx (key p) (val p) of
        (Inl e, tx') \<Rightarrow> (Inl e, tx')
      | (Inr _, tx') \<Rightarrow> a_write_sets tx' rest)"

definition AsyncTupleTransaction_write ::
  "('a::linorder, 'v, 'w) AsyncTupleTransaction \<Rightarrow> ('a, 'v) Writes
     \<Rightarrow> (error + unit) \<times> ('a, 'v, 'w) AsyncTupleTransaction" where
  "AsyncTupleTransaction_write tx ws =
     (case a_checkActive tx of
        Inl e \<Rightarrow> (Inl e, tx)
      | Inr _ \<Rightarrow>
          (case a_write_removes tx (w_remove ws) of
             (Inl e, tx') \<Rightarrow> (Inl e, tx')
           | (Inr _, tx') \<Rightarrow> a_write_sets tx' (w_set ws)))"

definition AsyncTupleTransaction_commit ::
  "('a, 'v, 'w) AsyncTupleTransaction \<Rightarrow> 'w
     \<Rightarrow> unit Promise \<times> ('a, 'v, 'w) AsyncTupleTransaction \<times> 'w" where
  "AsyncTupleTransaction_commit tx w =
     (case a_checkActive tx of
        Inl e \<Rightarrow> (Rejected e, tx, w)
      | Inr _ \<Rightarrow>
          (let tx' = tx\<lparr>a_committed := True\<rparr>
           in case adb_commit (atx_db tx') (a_writes tx') (Some (atx_id tx')) w of
                (r, w') \<Rightarrow> (r, tx', w')))"

definition AsyncTupleTransaction_cancel ::
  "('a, 'v, 'w) AsyncTupleTransaction \<Rightarrow> 'w
     \<Rightarrow> unit Promise \<times> ('a, 'v, 'w) AsyncTupleTransaction \<times> 'w" where
  "AsyncTupleTransaction_cancel tx w =
     (case a_checkActive tx of
        Inl e \<Rightarrow> (Rejected e, tx, w)
      | Inr _ \<Rightarrow>
          (let tx' = tx\<lparr>a_canceled := True\<rparr>
           in case adb_cancel (atx_db tx') (atx_id tx') w of
                (r, w') \<Rightarrow> (r, tx', w')))"

definition AsyncTupleTransaction_subspace ::
  "('a, 'v, 'w) AsyncTupleTransaction \<Rightarrow> 'a Tuple \<Rightarrow> error + 'a TupleTransactionSubspace" where
  "AsyncTupleTransaction_subspace tx prefix' =
     (case a_checkActive tx of
        Inl e \<Rightarrow> Inl e
      | Inr _ \<Rightarrow> Inr \<lparr>ts_subspacePrefix = prefix'\<rparr>)"

subsection \<open>The same engine behind both families\<close>

text \<open>
  The asynchronous client takes an \<open>AsyncTupleDatabaseApi\<close> or a \<open>TupleDatabaseApi\<close>.
  A synchronous engine is put behind the asynchronous interface as \<open>talk.test.ts\<close> does,
  \<open>scan: async (...args) => db.scan(...args)\<close> and so on: each method settles with what
  the synchronous one returns or throws. (Awaiting what a synchronous engine returns
  directly settles the same way.)
\<close>

definition settled :: "error + 'r \<Rightarrow> 'r Promise" where
  "settled r = (case r of Inl e \<Rightarrow> Rejected e | Inr x \<Rightarrow> Fulfilled x)"

definition asyncDb :: "('a, 'v, 'w) TupleDatabaseApi \<Rightarrow> ('a, 'v, 'w) AsyncTupleDatabaseApi" where
  "asyncDb d =
     \<lparr>adb_scan = (\<lambda>args txId w. case db_scan d args txId w of (r, w') \<Rightarrow> (settled r, w')),
      adb_commit = (\<lambda>ws txId w. case db_commit d ws txId w of (r, w') \<Rightarrow> (settled r, w')),
      adb_cancel = (\<lambda>txId w. case db_cancel d txId w of (r, w') \<Rightarrow> (settled r, w'))\<rparr>"

definition asyncClient ::
  "('a, 'v, 'w) TupleDatabaseClient \<Rightarrow> ('a, 'v, 'w) AsyncTupleDatabaseClient" where
  "asyncClient c = \<lparr>adb = asyncDb (db c), a_subspacePrefix = subspacePrefix c\<rparr>"

definition asyncTx :: "('a, 'v, 'w) TupleTransaction \<Rightarrow> ('a, 'v, 'w) AsyncTupleTransaction" where
  "asyncTx tx =
     \<lparr>atx_db = asyncDb (tx_db tx), atx_subspacePrefix = tx_subspacePrefix tx,
      atx_id = tx_id tx, a_committed = committed tx, a_canceled = canceled tx,
      a_writes = writes tx\<rparr>"


section \<open>Call sequences and concrete engines\<close>

text \<open>
  A sequence of write calls on one transaction. Each call runs on the transaction as
  the previous call left it, whether or not that call threw.
\<close>

datatype ('a, 'v) WriteCall =
  SetCall "'a Tuple" 'v
| RemoveCall "'a Tuple"
| WriteCall "('a, 'v) Writes"

fun run_call ::
  "('a::linorder, 'v, 'w) TupleTransaction \<Rightarrow> ('a, 'v) WriteCall
     \<Rightarrow> (error + unit) \<times> ('a, 'v, 'w) TupleTransaction" where
  "run_call tx (SetCall tuple v) = TupleTransaction_set tx tuple v"
| "run_call tx (RemoveCall tuple) = TupleTransaction_remove tx tuple"
| "run_call tx (WriteCall ws) = TupleTransaction_write tx ws"

fun run_calls ::
  "('a::linorder, 'v, 'w) TupleTransaction \<Rightarrow> ('a, 'v) WriteCall list
     \<Rightarrow> ('a, 'v, 'w) TupleTransaction" where
  "run_calls tx [] = tx"
| "run_calls tx (c # cs) = run_calls (snd (run_call tx c)) cs"

text \<open>
  The buffers of a transaction are kept as sorted arrays without repeated keys; this is
  what the binary searches of the helpers rely on.
\<close>

definition buffers_sorted :: "('a::linorder, 'v) Writes \<Rightarrow> bool" where
  "buffers_sorted ws =
     (sorted_wrt (<) (map key (w_set ws)) \<and> sorted_wrt (<) (w_remove ws))"

text \<open>An engine that stores nothing: every call returns and leaves the state alone.\<close>

definition nullDb :: "('a, 'v, 'w) TupleDatabaseApi" where
  "nullDb =
     \<lparr>db_scan = (\<lambda>args txId w. (Inr [], w)),
      db_commit = (\<lambda>ws txId w. (Inr (), w)),
      db_cancel = (\<lambda>txId w. (Inr (), w))\<rparr>"

text \<open>
  An engine whose \<open>commit\<close> always throws the conflict error. Its state is the list of
  the calls it has received.
\<close>

definition conflictDb :: "('a, 'v, string list) TupleDatabaseApi" where
  "conflictDb =
     \<lparr>db_scan = (\<lambda>args txId w. (Inr [], w @ [''scan''])),
      db_commit = (\<lambda>ws txId w. (Inl ReadWriteConflictError, w @ [''commit''])),
      db_cancel = (\<lambda>txId w. (Inr (), w @ [''cancel'']))\<rparr>"

text \<open>
  Modelled from the spec: \<open>TupleDatabase\<close> and \<open>InMemoryTupleStorage\<close> are not among the
  sources. This engine is the storage contract alone (spec, 4.C4 and 4.C7): the state is
  the sorted array of stored pairs, \<open>scan\<close> is the range scan over it, \<open>commit\<close> applies
  the removes and the sets of the batch, \<open>cancel\<close> changes nothing. It keeps no
  concurrency log and notifies no listener.
\<close>

definition memDb :: "('a::linorder, 'v, ('a, 'v) KeyValuePair list) TupleDatabaseApi" where
  "memDb =
     \<lparr>db_scan = (\<lambda>args txId data. (Inr (tv_scan data args), data)),
      db_commit = (\<lambda>ws txId data.
         (Inr (), foldl (\<lambda>d p. tv_set d (key p) (val p))
                    (foldl tv_remove data (w_remove ws)) (w_set ws))),
      db_cancel = (\<lambda>txId data. (Inr (), data))\<rparr>"

text \<open>Scan arguments with nothing given, \<open>{}\<close>.\<close>

definition no_bounds :: "'a ScanArgs" where
  "no_bounds = \<lparr>prefix = None, gt = None, gte = None, lt = None, lte = None, limit = None\<rparr>"

text \<open>An id generator that always answers \<open>tx1\<close>, and clients over the engines above.\<close>

definition fixedId :: "'w \<Rightarrow> TxId \<times> 'w" where
  "fixedId w = (''tx1'', w)"

definition memClient :: "(nat, nat, (nat, nat) KeyValuePair list) TupleDatabaseClient" where
  "memClient = \<lparr>db = memDb, subspacePrefix = []\<rparr>"

definition conflictClient :: "(nat, nat, string list) TupleDatabaseClient" where
  "conflictClient = \<lparr>db = conflictDb, subspacePrefix = []\<rparr>"

definition countingClient :: "(nat, nat, nat) TupleDatabaseClient" where
  "countingClient = \<lparr>db = nullDb, subspacePrefix = []\<rparr>"

text \<open>A client with string keys over the in-memory engine.\<close>

definition gameClient :: "(string, nat, (string, nat) KeyValuePair list) TupleDatabaseClient" where
  "gameClient = \<lparr>db = memDb, subspacePrefix = []\<rparr>"

text \<open>Fresh transactions: what \<open>transact()\<close> returns on these clients.\<close>

definition memTx :: "(nat, nat, (nat, nat) KeyValuePair list) TupleTransaction" where
  "memTx = fst (TupleDatabaseClient_transact fixedId memClient None [])"

definition conflictTx :: "(nat, nat, string list) TupleTransaction" where
  "conflictTx = fst (TupleDatabaseClient_transact fixedId conflictClient None [])"

text \<open>
  User functions for \<open>transactionalQuery\<close>: one that counts its own invocations in the
  outside state and throws a conflict every time, one that counts them too and throws a
  conflict on its first ten invocations only, one that throws some other error, and
  one that commits its transaction itself and lets what \<open>commit\<close> throws escape.
\<close>

definition alwaysConflicts ::
  "(nat, nat, nat) TupleTransaction \<Rightarrow> nat \<Rightarrow> (error + unit) \<times> (nat, nat, nat) TupleTransaction \<times> nat" where
  "alwaysConflicts tx n = (Inl ReadWriteConflictError, tx, Suc n)"

definition conflictsBelowTen ::
  "(nat, nat, nat) TupleTransaction \<Rightarrow> nat \<Rightarrow> (error + unit) \<times> (nat, nat, nat) TupleTransaction \<times> nat" where
  "conflictsBelowTen tx n =
     (if n < 10 then (Inl ReadWriteConflictError, tx, Suc n) else (Inr (), tx, Suc n))"

definition throwsBoom ::
  "('a, 'v, 'w) TupleTransaction \<Rightarrow> 'w \<Rightarrow> (error + unit) \<times> ('a, 'v, 'w) TupleTransaction \<times> 'w" where
  "throwsBoom tx w = (Inl (Error ''boom''), tx, w)"

definition commitsItself ::
  "('a, 'v, 'w) TupleTransaction \<Rightarrow> 'w \<Rightarrow> (error + unit) \<times> ('a, 'v, 'w) TupleTransaction \<times> 'w" where
  "commitsItself tx w = TupleTransaction_commit tx w"

text \<open>
  Data and user functions of \<open>talk.test.ts\<close>: the sorted list of names, the three
  pairs the first transaction of "transaction conveniences" commits, and the two
  composed queries \<open>updateTotal\<close> and \<open>setScore\<close> of its third example.
\<close>

definition people :: "string Tuple list" where
  "people = [[Val ''charlotte'', Val ''whitney''], [Val ''chet'', Val ''corcos''],
             [Val ''joe'', Val ''stevens''], [Val ''jon'', Val ''smith''],
             [Val ''jonathan'', Val ''smith''], [Val ''zoe'', Val ''brown'']]"

definition scores :: "(string, nat) KeyValuePair list" where
  "scores = [\<lparr>key = [Val ''score'', Val ''chet''], val = 1\<rparr>,
             \<lparr>key = [Val ''score'', Val ''meghan''], val = 2\<rparr>,
             \<lparr>key = [Val ''total''], val = 3\<rparr>]"

definition updateTotal ::
  "(string, nat, (string, nat) KeyValuePair list) TupleTransaction
     \<Rightarrow> (string, nat) KeyValuePair list
     \<Rightarrow> (error + unit) \<times> (string, nat, (string, nat) KeyValuePair list) TupleTransaction
        \<times> (string, nat) KeyValuePair list" where
  "updateTotal tx w =
     (case TupleTransaction_scan tx (no_bounds\<lparr>prefix := Some [Val ''score'']\<rparr>) w of
        (Inl e, w') \<Rightarrow> (Inl e, tx, w')
      | (Inr result, w') \<Rightarrow>
          (case TupleTransaction_set tx [Val ''total''] (foldl (+) 0 (map val result)) of
             (r, tx') \<Rightarrow> (r, tx', w')))"

definition setScore ::
  "string \<Rightarrow> nat \<Rightarrow> (string, nat, (string, nat) KeyValuePair list) TupleTransaction
     \<Rightarrow> (string, nat) KeyValuePair list
     \<Rightarrow> (error + unit) \<times> (string, nat, (string, nat) KeyValuePair list) TupleTransaction
        \<times> (string, nat) KeyValuePair list" where
  "setScore person score tx w =
     (case TupleTransaction_set tx [Val ''score'', Val person] score of
        (Inl e, tx') \<Rightarrow> (Inl e, tx', w)
      | (Inr _, tx') \<Rightarrow> updateTotal tx' w)"

text \<open>The error a closed transaction throws: \<open>checkActive\<close> tests \<open>committed\<close> first.\<close>

definition closedError :: "('a, 'v, 'w) TupleTransaction \<Rightarrow> error" where
  "closedError tx =
     (if committed tx then Error ''Transaction already committed''
      else Error ''Transaction already canceled'')"

text \<open>No tuple is buffered both as a set and as a remove.\<close>

definition disjoint_writes :: "('a, 'v) Writes \<Rightarrow> bool" where
  "disjoint_writes ws = (set (map key (w_set ws)) \<inter> set (w_remove ws) = {})"

text \<open>The two conditions together: what every call on a transaction keeps.\<close>

definition wf_writes :: "('a::linorder, 'v) Writes \<Rightarrow> bool" where
  "wf_writes ws = (buffers_sorted ws \<and> disjoint_writes ws)"

text \<open>
  The bounds of scan arguments as conditions on a key: above the lower bound, below
  the upper bound, and both. The exclusive bound is the one read when both are given,
  as in the scan.
\<close>

definition lower_ok :: "'a::linorder ScanArgs \<Rightarrow> 'a Tuple \<Rightarrow> bool" where
  "lower_ok args k =
     (case gt args of Some b \<Rightarrow> b < k
      | None \<Rightarrow> (case gte args of Some b \<Rightarrow> b \<le> k | None \<Rightarrow> True))"

definition upper_ok :: "'a::linorder ScanArgs \<Rightarrow> 'a Tuple \<Rightarrow> bool" where
  "upper_ok args k =
     (case lt args of Some b \<Rightarrow> k < b
      | None \<Rightarrow> (case lte args of Some b \<Rightarrow> k \<le> b | None \<Rightarrow> True))"

definition in_bounds :: "'a::linorder ScanArgs \<Rightarrow> 'a Tuple \<Rightarrow> bool" where
  "in_bounds args k = (lower_ok args k \<and> upper_ok args k)"

section \<open>The model on the repository's tests\<close>

text \<open>
  \<open>talk.test.ts\<close> exercises the helpers and the engine that are modelled from the spec.
  The model gives the answers the tests expect. Tuple sorting:
\<close>

lemma test_tuple_sorting:
  "sort [[Val ''jonathan'', Val ''smith''], [Val ''chet'', Val ''corcos''], [Val ''jon'', Val ''smith'']]
     = [[Val ''chet'', Val ''corcos''], [Val ''jon'', Val ''smith''], [Val ''jonathan'', Val ''smith'']]"
  by code_simp

text \<open>Binary search (the search for 1.5 among 0..5 is run on the doubled numbers):\<close>

lemma test_binary_search:
  "binarySearch [0, 1, 2, 3, 4, 5 :: int] (- 1) = closest 0
   \<and> binarySearch [0, 1, 2, 3, 4, 5 :: int] 10 = closest 6
   \<and> binarySearch [0, 2, 4, 6, 8, 10 :: int] 3 = closest 2
   \<and> binarySearch [0, 1, 2, 3, 4, 5 :: int] 5 = found 5"
  by code_simp

text \<open>The range scan \<open>{gte: ["j"], lt: ["k"]}\<close> over the sorted names, and the search on pairs:\<close>

lemma test_scan:
  "sort people = people
   \<and> t_scan people (no_bounds\<lparr>gte := Some [Val ''j''], lt := Some [Val ''k'']\<rparr>)
     = [[Val ''joe'', Val ''stevens''], [Val ''jon'', Val ''smith''], [Val ''jonathan'', Val ''smith'']]"
  by code_simp

lemma test_pairs_search:
  "binarySearch (map key [\<lparr>key = [Val ''chet'', Val ''corcos''], val = 0 :: nat\<rparr>,
       \<lparr>key = [Val ''jon'', Val ''smith''], val = 2\<rparr>,
       \<lparr>key = [Val ''jonathan'', Val ''smith''], val = 1\<rparr>]) [Val ''jon'', Val ''smith'']
     = found 1"
  by code_simp

text \<open>\<open>TupleStorageApi\<close>: commit three pairs, scan the same range.\<close>

lemma test_storage:
  "fst (db_scan memDb (no_bounds\<lparr>gte := Some [Val ''j''], lt := Some [Val ''k'']\<rparr>) None
     (snd (db_commit memDb
        \<lparr>w_set = [\<lparr>key = [Val ''chet'', Val ''corcos''], val = 0 :: nat\<rparr>,
                  \<lparr>key = [Val ''jon'', Val ''smith''], val = 2\<rparr>,
                  \<lparr>key = [Val ''jonathan'', Val ''smith''], val = 1\<rparr>],
         w_remove = []\<rparr> None [])))
     = Inr [\<lparr>key = [Val ''jon'', Val ''smith''], val = 2\<rparr>,
            \<lparr>key = [Val ''jonathan'', Val ''smith''], val = 1\<rparr>]"
  by code_simp

text \<open>
  "transaction conveniences": the first transaction commits the three scores; the
  second reads its own buffered \<open>total\<close>; the third example runs \<open>setScore(db, "joe", 15)\<close>
  through \<open>transactionalQuery\<close>, whose \<open>updateTotal\<close> scans the prefix \<open>["score"]\<close> through
  the transaction and so sees the buffered score.
\<close>

lemma test_transaction_example1:
  "snd (snd (TupleTransaction_commit
     (run_calls (fst (TupleDatabaseClient_transact fixedId gameClient None []))
        [SetCall [Val ''score'', Val ''chet''] 1, SetCall [Val ''score'', Val ''meghan''] 2,
         SetCall [Val ''total''] 3]) [])) = scores"
  by code_simp

lemma test_transaction_example2:
  "TupleTransaction_get
     (run_calls (fst (TupleDatabaseClient_transact fixedId gameClient None scores))
        [SetCall [Val ''score'', Val ''chet''] 2, SetCall [Val ''total''] 4])
     [Val ''total''] scores = (Inr (Some 4), scores)"
  by code_simp

lemma test_transaction_example3:
  "snd (snd (transactionalQuery fixedId None (setScore ''joe'' 15) (Db gameClient) scores))
     = [\<lparr>key = [Val ''score'', Val ''chet''], val = 1\<rparr>,
        \<lparr>key = [Val ''score'', Val ''joe''], val = 15\<rparr>,
        \<lparr>key = [Val ''score'', Val ''meghan''], val = 2\<rparr>,
        \<lparr>key = [Val ''total''], val = 18\<rparr>]"
  by code_simp

section \<open>Properties of the helpers\<close>

text \<open>
  On a sorted array without repeats the leading elements below an item are exactly the
  elements below it, so the search index splits the array into the smaller and the
  not-smaller elements.
\<close>

lemma takeWhile_less_sorted:
  "sorted_wrt (<) (xs::'k::linorder list) \<Longrightarrow> takeWhile (\<lambda>y. y < x) xs = filter (\<lambda>y. y < x) xs"
proof (induction xs)
  case Nil
  then show ?case by simp
next
  case (Cons a xs)
  show ?case
  proof (cases "a < x")
    case True
    then show ?thesis using Cons by simp
  next
    case False
    have "\<forall>y\<in>set xs. \<not> y < x"
      using Cons.prems False by (auto dest: less_trans)
    then have "filter (\<lambda>y. y < x) xs = []" by (simp add: filter_empty_conv)
    then show ?thesis using False by simp
  qed
qed

lemma dropWhile_less_sorted:
  "sorted_wrt (<) (xs::'k::linorder list) \<Longrightarrow> dropWhile (\<lambda>y. y < x) xs = filter (\<lambda>y. \<not> y < x) xs"
proof (induction xs)
  case Nil
  then show ?case by simp
next
  case (Cons a xs)
  show ?case
  proof (cases "a < x")
    case True
    then show ?thesis using Cons by simp
  next
    case False
    have "\<forall>y\<in>set xs. \<not> y < x"
      using Cons.prems False by (auto dest: less_trans)
    then have "filter (\<lambda>y. \<not> y < x) xs = xs" by simp
    then show ?thesis using False by simp
  qed
qed

lemma take_search_index:
  "take (length (takeWhile P xs)) xs = takeWhile P xs"
  by (simp add: takeWhile_eq_take[symmetric])

lemma drop_search_index:
  "drop (length (takeWhile P xs)) xs = dropWhile P xs"
  by (simp add: dropWhile_eq_drop[symmetric])

lemma take_index_filter:
  "sorted_wrt (<) (xs::'k::linorder list) \<Longrightarrow>
     take (length (takeWhile (\<lambda>y. y < x) xs)) xs = filter (\<lambda>y. y < x) xs"
  using take_search_index[of "\<lambda>y. y < x" xs] takeWhile_less_sorted[of xs x] by argo

lemma drop_index_filter:
  "sorted_wrt (<) (xs::'k::linorder list) \<Longrightarrow>
     drop (length (takeWhile (\<lambda>y. y < x) xs)) xs = filter (\<lambda>y. \<not> y < x) xs"
  by (simp only: drop_search_index dropWhile_less_sorted)

lemma binarySearch_found_iff:
  "binarySearch xs x = found i \<longleftrightarrow>
     (i = length (takeWhile (\<lambda>y. y < x) xs) \<and> i < length xs \<and> xs ! i = x)"
  by (auto simp: binarySearch_def Let_def)

lemma binarySearch_closest_iff:
  "binarySearch xs x = closest i \<longleftrightarrow>
     (i = length (takeWhile (\<lambda>y. y < x) xs) \<and> \<not> (i < length xs \<and> xs ! i = x))"
  by (auto simp: binarySearch_def Let_def)

lemma search_index_mem:
  "sorted_wrt (<) (xs::'k::linorder list) \<Longrightarrow> x \<in> set xs \<Longrightarrow>
     length (takeWhile (\<lambda>y. y < x) xs) < length xs \<and> xs ! length (takeWhile (\<lambda>y. y < x) xs) = x"
  by (induction xs) auto

lemma binarySearch_found_mem:
  assumes "sorted_wrt (<) xs"
  shows "(\<exists>i. binarySearch xs x = found i) \<longleftrightarrow> x \<in> set xs"
proof
  assume "\<exists>i. binarySearch xs x = found i"
  then obtain i where "i < length xs" "xs ! i = x"
    by (auto simp: binarySearch_found_iff)
  then show "x \<in> set xs" using nth_mem by blast
next
  assume "x \<in> set xs"
  then show "\<exists>i. binarySearch xs x = found i"
    using search_index_mem[OF assms, of x] by (simp add: binarySearch_def Let_def)
qed

lemma t_exists_iff: "sorted_wrt (<) xs \<Longrightarrow> t_exists xs x \<longleftrightarrow> x \<in> set xs"
  using binarySearch_found_mem[of xs x]
  by (auto simp: t_exists_def split: BinarySearchResult.splits)

lemma set_t_set: "sorted_wrt (<) xs \<Longrightarrow> set (t_set xs x) = insert x (set xs)"
proof -
  assume s: "sorted_wrt (<) xs"
  show ?thesis
  proof (cases "binarySearch xs x")
    case (found i)
    then have "i < length xs" "xs ! i = x" by (auto simp: binarySearch_found_iff)
    then have "xs[i := x] = xs" by (metis list_update_id)
    moreover have "x \<in> set xs" using \<open>i < length xs\<close> \<open>xs ! i = x\<close> nth_mem by blast
    ultimately show ?thesis using found by (auto simp: t_set_def)
  next
    case (closest i)
    have "set (take i xs) \<union> set (drop i xs) = set xs"
      by (metis append_take_drop_id set_append)
    then have "set (take i xs @ [x] @ drop i xs) = insert x (set xs)" by auto
    then show ?thesis using closest by (simp add: t_set_def)
  qed
qed

lemma t_remove_eq_filter: "sorted_wrt (<) xs \<Longrightarrow> t_remove xs x = filter (\<lambda>y. y \<noteq> x) xs"
proof -
  assume s: "sorted_wrt (<) xs"
  show ?thesis
  proof (cases "binarySearch xs x")
    case (found i)
    then have i: "i = length (takeWhile (\<lambda>y. y < x) xs)" and lt: "i < length xs" and at: "xs ! i = x"
      by (auto simp: binarySearch_found_iff)
    have tk: "take i xs = filter (\<lambda>y. y < x) xs"
      using s unfolding i by (rule take_index_filter)
    have dr: "drop i xs = filter (\<lambda>y. \<not> y < x) xs"
      using s unfolding i by (rule drop_index_filter)
    have split: "xs = take i xs @ x # drop (Suc i) xs"
      using lt at by (metis id_take_nth_drop)
    have sd: "sorted_wrt (<) (x # drop (Suc i) xs)"
      using s split by (metis sorted_wrt_append)
    then have gt: "\<forall>y\<in>set (drop (Suc i) xs). x < y" by simp
    have lts: "\<forall>y\<in>set (take i xs). y < x" using tk by auto
    have "filter (\<lambda>y. y \<noteq> x) xs = filter (\<lambda>y. y \<noteq> x) (take i xs) @ filter (\<lambda>y. y \<noteq> x) (x # drop (Suc i) xs)"
      by (metis split filter_append)
    also have "\<dots> = take i xs @ drop (Suc i) xs"
    proof -
      have "filter (\<lambda>y. y \<noteq> x) (take i xs) = take i xs"
        using lts by (auto simp: filter_id_conv)
      moreover have "filter (\<lambda>y. y \<noteq> x) (drop (Suc i) xs) = drop (Suc i) xs"
        using gt by (auto simp: filter_id_conv)
      ultimately show ?thesis by simp
    qed
    finally show ?thesis using found by (simp add: t_remove_def)
  next
    case (closest i)
    then have i: "i = length (takeWhile (\<lambda>y. y < x) xs)"
      and nf: "\<not> (i < length xs \<and> xs ! i = x)" by (auto simp: binarySearch_closest_iff)
    have notin: "x \<notin> set xs" using search_index_mem[OF s, of x] i nf by auto
    then have "filter (\<lambda>y. y \<noteq> x) xs = xs" by (auto simp: filter_id_conv)
    then show ?thesis using closest by (simp add: t_remove_def)
  qed
qed

lemma sorted_t_set: "sorted_wrt (<) xs \<Longrightarrow> sorted_wrt (<) (t_set xs x)"
proof -
  assume s: "sorted_wrt (<) xs"
  show ?thesis
  proof (cases "binarySearch xs x")
    case (found i)
    then have "i < length xs" "xs ! i = x" by (auto simp: binarySearch_found_iff)
    then have "xs[i := x] = xs" by (metis list_update_id)
    then show ?thesis using found s by (simp add: t_set_def)
  next
    case (closest i)
    then have i: "i = length (takeWhile (\<lambda>y. y < x) xs)"
      and nf: "\<not> (i < length xs \<and> xs ! i = x)" by (auto simp: binarySearch_closest_iff)
    have notin: "x \<notin> set xs" using search_index_mem[OF s, of x] i nf by auto
    have tk: "take i xs = filter (\<lambda>y. y < x) xs"
      using s unfolding i by (rule take_index_filter)
    have dr: "drop i xs = filter (\<lambda>y. \<not> y < x) xs"
      using s unfolding i by (rule drop_index_filter)
    have above: "\<forall>y\<in>set (filter (\<lambda>y. \<not> y < x) xs). x < y"
    proof (intro ballI)
      fix y assume "y \<in> set (filter (\<lambda>y. \<not> y < x) xs)"
      then have "y \<in> set xs" "\<not> y < x" by simp_all
      moreover have "y \<noteq> x" using notin \<open>y \<in> set xs\<close> by blast
      ultimately show "x < y" using not_less_iff_gr_or_eq by blast
    qed
    have across: "\<forall>y\<in>set (filter (\<lambda>y. y < x) xs). \<forall>z\<in>set (x # filter (\<lambda>y. \<not> y < x) xs). y < z"
    proof (intro ballI)
      fix y z assume "y \<in> set (filter (\<lambda>y. y < x) xs)" "z \<in> set (x # filter (\<lambda>y. \<not> y < x) xs)"
      then have "y < x" "x \<le> z" by (auto simp: not_less)
      then show "y < z" by (rule less_le_trans)
    qed
    have below: "\<forall>y\<in>set (filter (\<lambda>y. y < x) xs). y < x" by simp
    have s1: "sorted_wrt (<) (filter (\<lambda>y. y < x) xs)" using s by (rule sorted_wrt_filter)
    have s2: "sorted_wrt (<) (filter (\<lambda>y. \<not> y < x) xs)" using s by (rule sorted_wrt_filter)
    have "sorted_wrt (<) (x # filter (\<lambda>y. \<not> y < x) xs)"
      using s2 above by (simp only: sorted_wrt.simps)
    then have "sorted_wrt (<) (filter (\<lambda>y. y < x) xs @ (x # filter (\<lambda>y. \<not> y < x) xs))"
      using s1 across by (simp only: sorted_wrt_append)
    then have "sorted_wrt (<) (take i xs @ [x] @ drop i xs)"
      by (simp only: tk dr append_Cons append_Nil)
    then show ?thesis using closest by (simp only: t_set_def BinarySearchResult.case)
  qed
qed

lemma keys_tv_set: "map key (tv_set d k v) = t_set (map key d) k"
  by (simp add: tv_set_def t_set_def map_update take_map drop_map split: BinarySearchResult.splits)

lemma keys_tv_remove: "map key (tv_remove d k) = t_remove (map key d) k"
  by (simp add: tv_remove_def t_remove_def take_map drop_map split: BinarySearchResult.splits)

lemma tv_exists_keys: "tv_exists d k = t_exists (map key d) k"
  by (simp add: tv_exists_def t_exists_def)

lemma sorted_t_remove: "sorted_wrt (<) xs \<Longrightarrow> sorted_wrt (<) (t_remove xs x)"
  by (simp add: t_remove_eq_filter sorted_wrt_filter)

lemma set_t_remove: "sorted_wrt (<) xs \<Longrightarrow> set (t_remove xs x) = set xs - {x}"
  by (auto simp: t_remove_eq_filter)

lemma checkActive_cases:
  "checkActive tx = Inr () \<longleftrightarrow> (\<not> committed tx \<and> \<not> canceled tx)"
  by (simp add: checkActive_def)

lemma wf_set:
  assumes "wf_writes (writes tx)"
  shows "wf_writes (writes (snd (TupleTransaction_set tx t v)))"
proof (cases "checkActive tx")
  case (Inl e)
  then show ?thesis using assms by (simp add: TupleTransaction_set_def)
next
  case (Inr u)
  let ?k = "prependPrefixToTuple (tx_subspacePrefix tx) t"
  have s1: "sorted_wrt (<) (map key (w_set (writes tx)))" and s2: "sorted_wrt (<) (w_remove (writes tx))"
    and d: "set (map key (w_set (writes tx))) \<inter> set (w_remove (writes tx)) = {}"
    using assms by (simp_all add: wf_writes_def buffers_sorted_def disjoint_writes_def)
  have w: "writes (snd (TupleTransaction_set tx t v))
      = \<lparr>w_set = tv_set (w_set (writes tx)) ?k v, w_remove = t_remove (w_remove (writes tx)) ?k\<rparr>"
    using Inr by (simp add: TupleTransaction_set_def Let_def)
  have "set (t_set (map key (w_set (writes tx))) ?k) \<inter> set (t_remove (w_remove (writes tx)) ?k) = {}"
    using d by (auto simp: set_t_set[OF s1] set_t_remove[OF s2])
  then show ?thesis
    using s1 s2 unfolding w wf_writes_def buffers_sorted_def disjoint_writes_def
    by (simp add: keys_tv_set sorted_t_set sorted_t_remove)
qed

lemma wf_remove:
  assumes "wf_writes (writes tx)"
  shows "wf_writes (writes (snd (TupleTransaction_remove tx t)))"
proof (cases "checkActive tx")
  case (Inl e)
  then show ?thesis using assms by (simp add: TupleTransaction_remove_def)
next
  case (Inr u)
  let ?k = "prependPrefixToTuple (tx_subspacePrefix tx) t"
  have s1: "sorted_wrt (<) (map key (w_set (writes tx)))" and s2: "sorted_wrt (<) (w_remove (writes tx))"
    and d: "set (map key (w_set (writes tx))) \<inter> set (w_remove (writes tx)) = {}"
    using assms by (simp_all add: wf_writes_def buffers_sorted_def disjoint_writes_def)
  have w: "writes (snd (TupleTransaction_remove tx t))
      = \<lparr>w_set = tv_remove (w_set (writes tx)) ?k, w_remove = t_set (w_remove (writes tx)) ?k\<rparr>"
    using Inr by (simp add: TupleTransaction_remove_def Let_def)
  have "set (t_remove (map key (w_set (writes tx))) ?k) \<inter> set (t_set (w_remove (writes tx)) ?k) = {}"
    using d by (auto simp: set_t_remove[OF s1] set_t_set[OF s2])
  then show ?thesis
    using s1 s2 unfolding w wf_writes_def buffers_sorted_def disjoint_writes_def
    by (simp add: keys_tv_remove sorted_t_set sorted_t_remove)
qed

lemma wf_write_removes:
  "wf_writes (writes tx) \<Longrightarrow> wf_writes (writes (snd (write_removes tx ts)))"
proof (induction ts arbitrary: tx)
  case Nil
  then show ?case by simp
next
  case (Cons t ts)
  have step: "wf_writes (writes (snd (TupleTransaction_remove tx t)))"
    using Cons.prems by (rule wf_remove)
  obtain r tx' where e: "TupleTransaction_remove tx t = (r, tx')" by (cases "TupleTransaction_remove tx t")
  show ?case
  proof (cases r)
    case (Inl err)
    then show ?thesis using e step by simp
  next
    case (Inr u)
    then show ?thesis using e step Cons.IH[of tx'] by simp
  qed
qed

lemma wf_write_sets:
  "wf_writes (writes tx) \<Longrightarrow> wf_writes (writes (snd (write_sets tx ps)))"
proof (induction ps arbitrary: tx)
  case Nil
  then show ?case by simp
next
  case (Cons p ps)
  have step: "wf_writes (writes (snd (TupleTransaction_set tx (key p) (val p))))"
    using Cons.prems by (rule wf_set)
  obtain r tx' where e: "TupleTransaction_set tx (key p) (val p) = (r, tx')"
    by (cases "TupleTransaction_set tx (key p) (val p)")
  show ?case
  proof (cases r)
    case (Inl err)
    then show ?thesis using e step by simp
  next
    case (Inr u)
    then show ?thesis using e step Cons.IH[of tx'] by simp
  qed
qed

lemma wf_write:
  assumes "wf_writes (writes tx)"
  shows "wf_writes (writes (snd (TupleTransaction_write tx ws)))"
proof (cases "checkActive tx")
  case (Inl e)
  then show ?thesis using assms by (simp add: TupleTransaction_write_def)
next
  case (Inr u)
  obtain r tx' where e: "write_removes tx (w_remove ws) = (r, tx')"
    by (cases "write_removes tx (w_remove ws)")
  have step: "wf_writes (writes tx')" using wf_write_removes[OF assms, of "w_remove ws"] e by simp
  show ?thesis
  proof (cases r)
    case (Inl err)
    then show ?thesis using Inr e step by (simp add: TupleTransaction_write_def)
  next
    case (Inr u')
    then show ?thesis using \<open>checkActive tx = Inr u\<close> e wf_write_sets[OF step, of "w_set ws"]
      by (simp add: TupleTransaction_write_def)
  qed
qed

lemma wf_run_call: "wf_writes (writes tx) \<Longrightarrow> wf_writes (writes (snd (run_call tx c)))"
  by (cases c) (simp_all add: wf_set wf_remove wf_write)

lemma wf_run_calls: "wf_writes (writes tx) \<Longrightarrow> wf_writes (writes (run_calls tx cs))"
  by (induction cs arbitrary: tx) (simp_all add: wf_run_call)

text \<open>So the buffers of a transaction are sorted arrays after every sequence of calls.\<close>

lemma reachable_buffers_sorted:
  "buffers_sorted (writes (run_calls (tx\<lparr>writes := \<lparr>w_set = [], w_remove = []\<rparr>\<rparr>) cs))"
proof -
  have "wf_writes (writes (tx\<lparr>writes := \<lparr>w_set = [], w_remove = []\<rparr>\<rparr>))"
    by (simp add: wf_writes_def buffers_sorted_def disjoint_writes_def)
  then have "wf_writes (writes (run_calls (tx\<lparr>writes := \<lparr>w_set = [], w_remove = []\<rparr>\<rparr>) cs))"
    by (rule wf_run_calls)
  then show ?thesis by (simp add: wf_writes_def)
qed

section \<open>The write buffers stay disjoint\<close>

text \<open>
  C4. A transaction starts with both buffers empty. After any finite sequence of
  \<open>set\<close>, \<open>remove\<close> and \<open>write\<close> calls on it, no tuple is both in \<open>writes.set\<close> and in
  \<open>writes.remove\<close>: \<open>set\<close> takes the tuple out of the remove buffer before it puts it
  into the set buffer, and \<open>remove\<close> the other way round.
\<close>

theorem writes_stay_disjoint:
  "set (map key (w_set (writes (run_calls (tx\<lparr>writes := \<lparr>w_set = [], w_remove = []\<rparr>\<rparr>) cs))))
     \<inter> set (w_remove (writes (run_calls (tx\<lparr>writes := \<lparr>w_set = [], w_remove = []\<rparr>\<rparr>) cs))) = {}"
proof -
  have "wf_writes (writes (tx\<lparr>writes := \<lparr>w_set = [], w_remove = []\<rparr>\<rparr>))"
    by (simp add: wf_writes_def buffers_sorted_def disjoint_writes_def)
  then have "wf_writes (writes (run_calls (tx\<lparr>writes := \<lparr>w_set = [], w_remove = []\<rparr>\<rparr>) cs))"
    by (rule wf_run_calls)
  then show ?thesis by (simp add: wf_writes_def disjoint_writes_def)
qed

section \<open>Closed transactions\<close>

lemma checkActive_closed:
  "committed tx \<or> canceled tx \<Longrightarrow> checkActive tx = Inl (closedError tx)"
  by (auto simp: checkActive_def closedError_def)

lemma checkActive_committed:
  "committed tx \<Longrightarrow> checkActive tx = Inl (Error ''Transaction already committed'')"
  by (simp add: checkActive_def)

lemma commit_active:
  "\<not> committed tx \<Longrightarrow> \<not> canceled tx \<Longrightarrow>
     TupleTransaction_commit tx w =
       (fst (db_commit (tx_db tx) (writes tx) (Some (tx_id tx)) w), tx\<lparr>committed := True\<rparr>,
        snd (db_commit (tx_db tx) (writes tx) (Some (tx_id tx)) w))"
  by (simp add: TupleTransaction_commit_def checkActive_def Let_def split: prod.splits)

lemma cancel_active:
  "\<not> committed tx \<Longrightarrow> \<not> canceled tx \<Longrightarrow>
     TupleTransaction_cancel tx w =
       (fst (db_cancel (tx_db tx) (tx_id tx) w), tx\<lparr>canceled := True\<rparr>,
        snd (db_cancel (tx_db tx) (tx_id tx) w))"
  by (simp add: TupleTransaction_cancel_def checkActive_def Let_def split: prod.splits)

lemma cancel_closed:
  "committed tx \<or> canceled tx \<Longrightarrow> TupleTransaction_cancel tx w = (Inl (closedError tx), tx, w)"
  by (simp add: TupleTransaction_cancel_def checkActive_closed)

lemma commit_closes:
  "committed (fst (snd (TupleTransaction_commit tx w)))
     \<or> canceled (fst (snd (TupleTransaction_commit tx w)))"
  by (auto simp: TupleTransaction_commit_def checkActive_def Let_def split: prod.splits)

lemma cancel_closes:
  "committed (fst (snd (TupleTransaction_cancel tx w)))
     \<or> canceled (fst (snd (TupleTransaction_cancel tx w)))"
  by (auto simp: TupleTransaction_cancel_def checkActive_def Let_def split: prod.splits)

text \<open>
  C6. On a transaction that is committed or canceled, each of \<open>scan\<close>, \<open>get\<close>, \<open>exists\<close>,
  \<open>set\<close>, \<open>remove\<close>, \<open>write\<close>, \<open>commit\<close>, \<open>cancel\<close> and \<open>subspace\<close> throws the
  transaction-closed error (already committed, or else already canceled) and changes
  nothing: the transaction, its buffered writes and the state outside are as before,
  and the engine is not called. So a second \<open>commit\<close> or \<open>cancel\<close> throws and leaves
  the buffered writes as they were.
\<close>

theorem closed_transaction_rejects_calls:
  assumes "committed tx \<or> canceled tx"
  shows "TupleTransaction_scan tx args w = (Inl (closedError tx), w)
       \<and> TupleTransaction_get tx t w = (Inl (closedError tx), w)
       \<and> TupleTransaction_exists tx t w = (Inl (closedError tx), w)
       \<and> TupleTransaction_set tx t v = (Inl (closedError tx), tx)
       \<and> TupleTransaction_remove tx t = (Inl (closedError tx), tx)
       \<and> TupleTransaction_write tx ws = (Inl (closedError tx), tx)
       \<and> TupleTransaction_commit tx w = (Inl (closedError tx), tx, w)
       \<and> TupleTransaction_cancel tx w = (Inl (closedError tx), tx, w)
       \<and> TupleTransaction_subspace tx p = Inl (closedError tx)"
  using checkActive_closed[OF assms]
  by (simp add: TupleTransaction_scan_def TupleTransaction_get_def TupleTransaction_exists_def
      TupleTransaction_set_def TupleTransaction_remove_def TupleTransaction_write_def
      TupleTransaction_commit_def TupleTransaction_cancel_def TupleTransaction_subspace_def)

text \<open>
  The transaction left by \<open>transact\<close>, \<open>set([2], 7)\<close>, \<open>cancel\<close> on the in-memory client:
  canceled, with the set still buffered. A second \<open>cancel\<close> and a \<open>commit\<close> throw and
  leave it as it is.
\<close>

theorem closed_transaction_rejects_calls_witness:
  "(committed (fst (snd (TupleTransaction_cancel (snd (TupleTransaction_set memTx [Val 2] 7)) [])))
     \<or> canceled (fst (snd (TupleTransaction_cancel (snd (TupleTransaction_set memTx [Val 2] 7)) []))))
   \<and> fst (snd (TupleTransaction_cancel (snd (TupleTransaction_set memTx [Val 2] 7)) []))
      = memTx\<lparr>canceled := True, writes := \<lparr>w_set = [\<lparr>key = [Val 2], val = 7\<rparr>], w_remove = []\<rparr>\<rparr>
   \<and> TupleTransaction_cancel
        (memTx\<lparr>canceled := True, writes := \<lparr>w_set = [\<lparr>key = [Val 2], val = 7\<rparr>], w_remove = []\<rparr>\<rparr>) []
      = (Inl (Error ''Transaction already canceled''),
         memTx\<lparr>canceled := True, writes := \<lparr>w_set = [\<lparr>key = [Val 2], val = 7\<rparr>], w_remove = []\<rparr>\<rparr>, [])
   \<and> TupleTransaction_commit
        (memTx\<lparr>canceled := True, writes := \<lparr>w_set = [\<lparr>key = [Val 2], val = 7\<rparr>], w_remove = []\<rparr>\<rparr>) []
      = (Inl (Error ''Transaction already canceled''),
         memTx\<lparr>canceled := True, writes := \<lparr>w_set = [\<lparr>key = [Val 2], val = 7\<rparr>], w_remove = []\<rparr>\<rparr>, [])"
proof -
  let ?tx = "memTx\<lparr>canceled := True, writes := \<lparr>w_set = [\<lparr>key = [Val 2], val = 7\<rparr>], w_remove = []\<rparr>\<rparr>"
  have tx: "fst (snd (TupleTransaction_cancel (snd (TupleTransaction_set memTx [Val 2] 7)) [])) = ?tx"
    by (simp add: memTx_def TupleDatabaseClient_transact_def fixedId_def memClient_def
        TupleTransaction_set_def TupleTransaction_cancel_def checkActive_def
        prependPrefixToTuple_def t_remove_def tv_set_def binarySearch_def memDb_def)
  have h: "committed ?tx \<or> canceled ?tx" by simp
  have e: "closedError ?tx = Error ''Transaction already canceled''"
    by (simp add: closedError_def memTx_def TupleDatabaseClient_transact_def fixedId_def)
  note T = closed_transaction_rejects_calls[OF h, where w = "[]" and args = no_bounds
        and t = "[]" and v = 0 and ws = "\<lparr>w_set = [], w_remove = []\<rparr>" and p = "[]"]
  have c1: "TupleTransaction_commit ?tx [] = (Inl (Error ''Transaction already canceled''), ?tx, [])"
    using T e by simp
  have c2: "TupleTransaction_cancel ?tx [] = (Inl (Error ''Transaction already canceled''), ?tx, [])"
    using T e by simp
  show ?thesis using h tx c1 c2 by simp
qed

text \<open>
  C10. \<open>commit\<close> on an active transaction sets \<open>committed\<close> and then hands the buffered
  writes to the engine; whatever the engine's \<open>commit\<close> returns or throws, the
  transaction that is left is the old one with \<open>committed\<close> set, and every later call
  on it (a second \<open>commit\<close>, \<open>cancel\<close>, \<open>scan\<close>, \<open>get\<close>, \<open>exists\<close>, \<open>set\<close>, \<open>remove\<close>,
  \<open>write\<close>) throws the already-committed error and changes nothing.
\<close>

theorem commit_closes_before_engine_call:
  assumes "\<not> committed tx" and "\<not> canceled tx"
    and "TupleTransaction_commit tx w = (r, tx', w')"
  shows "(r, w') = db_commit (tx_db tx) (writes tx) (Some (tx_id tx)) w
       \<and> tx' = tx\<lparr>committed := True\<rparr>
       \<and> TupleTransaction_commit tx' w2 = (Inl (Error ''Transaction already committed''), tx', w2)
       \<and> TupleTransaction_cancel tx' w2 = (Inl (Error ''Transaction already committed''), tx', w2)
       \<and> TupleTransaction_scan tx' args w2 = (Inl (Error ''Transaction already committed''), w2)
       \<and> TupleTransaction_get tx' t w2 = (Inl (Error ''Transaction already committed''), w2)
       \<and> TupleTransaction_exists tx' t w2 = (Inl (Error ''Transaction already committed''), w2)
       \<and> TupleTransaction_set tx' t v = (Inl (Error ''Transaction already committed''), tx')
       \<and> TupleTransaction_remove tx' t = (Inl (Error ''Transaction already committed''), tx')
       \<and> TupleTransaction_write tx' ws = (Inl (Error ''Transaction already committed''), tx')"
proof -
  have tx': "tx' = tx\<lparr>committed := True\<rparr>"
    and rw: "(r, w') = db_commit (tx_db tx) (writes tx) (Some (tx_id tx)) w"
    using assms by (auto simp: commit_active)
  have "committed tx'" using tx' by simp
  then have ca: "checkActive tx' = Inl (Error ''Transaction already committed'')"
    by (rule checkActive_committed)
  show ?thesis
    using tx' rw ca
    by (simp add: TupleTransaction_scan_def TupleTransaction_get_def TupleTransaction_exists_def
      TupleTransaction_set_def TupleTransaction_remove_def TupleTransaction_write_def
      TupleTransaction_commit_def TupleTransaction_cancel_def)
qed

text \<open>
  A fresh transaction on the engine whose \<open>commit\<close> throws the conflict error: the
  first \<open>commit\<close> throws the conflict, the second throws already-committed and does
  not reach the engine, whose call list still holds the one \<open>commit\<close>.
\<close>

theorem commit_closes_before_engine_call_witness:
  "\<not> committed conflictTx \<and> \<not> canceled conflictTx
   \<and> TupleTransaction_commit conflictTx []
      = (Inl ReadWriteConflictError, conflictTx\<lparr>committed := True\<rparr>, [''commit''])
   \<and> TupleTransaction_commit (conflictTx\<lparr>committed := True\<rparr>) [''commit'']
      = (Inl (Error ''Transaction already committed''), conflictTx\<lparr>committed := True\<rparr>, [''commit''])"
proof -
  have a: "\<not> committed conflictTx" and b: "\<not> canceled conflictTx"
    by (simp_all add: conflictTx_def TupleDatabaseClient_transact_def fixedId_def)
  have c: "TupleTransaction_commit conflictTx [] =
      (Inl ReadWriteConflictError, conflictTx\<lparr>committed := True\<rparr>, [''commit''])"
    by (simp add: conflictTx_def TupleDatabaseClient_transact_def fixedId_def conflictClient_def
        TupleTransaction_commit_def checkActive_def conflictDb_def)
  have d: "TupleTransaction_commit (conflictTx\<lparr>committed := True\<rparr>) [''commit''] =
      (Inl (Error ''Transaction already committed''), conflictTx\<lparr>committed := True\<rparr>, [''commit''])"
    by (rule commit_closes_before_engine_call[OF a b c, where ?w2.0 = "[''commit'']"
        and args = no_bounds and t = "[]" and v = 0 and ws = "\<lparr>w_set = [], w_remove = []\<rparr>",
        THEN conjunct2, THEN conjunct2, THEN conjunct1])
  show ?thesis using a b c d by simp
qed

section \<open>The retry loop\<close>

lemma retry_other_error:
  "fn w = (Inl e, w') \<Longrightarrow> e \<noteq> ReadWriteConflictError \<Longrightarrow> retry n fn w = (Inl e, w')"
  by (subst retry.simps) simp

lemma retry_exhausted: "fn w = (Inl e, w') \<Longrightarrow> n \<le> 0 \<Longrightarrow> retry n fn w = (Inl e, w')"
  by (subst retry.simps) simp

lemma retry_conflict:
  "fn w = (Inl ReadWriteConflictError, w') \<Longrightarrow> 0 < n \<Longrightarrow> retry n fn w = retry (n - 1) fn w'"
  by (subst retry.simps) simp

text \<open>
  When every run of \<open>fn\<close> throws a conflict and leaves the state \<open>g w\<close>, the loop started
  with counter \<open>n\<close> runs \<open>fn\<close> once and then once more per unit of the counter.
\<close>

lemma retry_all_conflict:
  assumes "\<forall>w. fn w = (Inl ReadWriteConflictError, g w)"
  shows "nat n = k \<Longrightarrow> retry n fn w = (Inl ReadWriteConflictError, (g ^^ Suc k) w)"
proof (induction k arbitrary: n w)
  case 0
  have "fn w = (Inl ReadWriteConflictError, g w)" using assms by simp
  moreover have "n \<le> 0" using 0 by simp
  ultimately have "retry n fn w = (Inl ReadWriteConflictError, g w)"
    by (rule retry_exhausted)
  then show ?case by simp
next
  case (Suc k)
  have fw: "fn w = (Inl ReadWriteConflictError, g w)" using assms by simp
  have pos: "0 < n" and k: "nat (n - 1) = k" using Suc.prems by simp_all
  have "retry n fn w = retry (n - 1) fn (g w)"
    using fw pos by (rule retry_conflict)
  also have "\<dots> = (Inl ReadWriteConflictError, (g ^^ Suc k) (g w))"
    using k by (rule Suc.IH)
  also have "(g ^^ Suc k) (g w) = (g ^^ Suc (Suc k)) w"
    by (simp add: funpow_swap1)
  finally show ?case .
qed

lemma attempt_fn_throws:
  assumes "TupleDatabaseClient_transact randomId c None w = (tx, w1)"
    and "fn tx w1 = (Inl err, tx', w2)"
    and "TupleTransaction_cancel tx' w2 = (r, tx'', w3)"
  shows "transactionalQuery_attempt randomId fn c w =
           ((case r of Inl e \<Rightarrow> Inl e | Inr u \<Rightarrow> Inl err), tx'', w3)"
  using assms by (simp add: transactionalQuery_attempt_def split: sum.splits)

lemma attempt_fn_returns:
  assumes "TupleDatabaseClient_transact randomId c None w = (tx, w1)"
    and "fn tx w1 = (Inr x, tx', w2)"
    and "TupleTransaction_commit tx' w2 = (r, tx'', w3)"
  shows "transactionalQuery_attempt randomId fn c w =
           ((case r of Inl e \<Rightarrow> Inl e | Inr u \<Rightarrow> Inr x), tx'', w3)"
  using assms by (simp add: transactionalQuery_attempt_def split: sum.splits)

lemma attempt_closes:
  "committed (fst (snd (transactionalQuery_attempt randomId fn c w)))
     \<or> canceled (fst (snd (transactionalQuery_attempt randomId fn c w)))"
proof -
  obtain tx w1 where t: "TupleDatabaseClient_transact randomId c None w = (tx, w1)"
    by (cases "TupleDatabaseClient_transact randomId c None w")
  obtain r tx' w2 where f: "fn tx w1 = (r, tx', w2)" by (cases "fn tx w1")
  show ?thesis
  proof (cases r)
    case (Inl err)
    obtain r' tx'' w3 where c: "TupleTransaction_cancel tx' w2 = (r', tx'', w3)"
      by (cases "TupleTransaction_cancel tx' w2")
    have "committed tx'' \<or> canceled tx''" using cancel_closes[of tx' w2] c by simp
    then show ?thesis
      using attempt_fn_throws[where fn = fn and err = err, OF t _ c] f Inl by simp
  next
    case (Inr x)
    obtain r' tx'' w3 where c: "TupleTransaction_commit tx' w2 = (r', tx'', w3)"
      by (cases "TupleTransaction_commit tx' w2")
    have "committed tx'' \<or> canceled tx''" using commit_closes[of tx' w2] c by simp
    then show ?thesis
      using attempt_fn_returns[where fn = fn and x = x, OF t _ c] f Inr by simp
  qed
qed

text \<open>The counting user function on the do-nothing engine: one attempt.\<close>

lemma counting_attempt:
  "transactionalQuery_attempt fixedId alwaysConflicts countingClient n =
     (Inl ReadWriteConflictError,
      (fst (TupleDatabaseClient_transact fixedId countingClient None n))\<lparr>canceled := True\<rparr>, Suc n)"
  by (simp add: transactionalQuery_attempt_def TupleDatabaseClient_transact_def fixedId_def
      countingClient_def alwaysConflicts_def TupleTransaction_cancel_def checkActive_def nullDb_def)

lemma retry_success: "fn w = (Inr x, w') \<Longrightarrow> retry n fn w = (Inr x, w')"
  by (subst retry.simps) simp

text \<open>One turn of the loop behind \<open>transactionalQuery\<close>, for every outcome of an attempt.\<close>

lemma transactionalQuery_unfold:
  "transactionalQuery randomId (Some n) fn (Db c) w =
     (case transactionalQuery_attempt randomId fn c w of
        (Inr x, tx, w') \<Rightarrow> (Inr x, Db c, w')
      | (Inl e, tx, w') \<Rightarrow>
          if n \<le> 0 \<or> e \<noteq> ReadWriteConflictError then (Inl e, Db c, w')
          else transactionalQuery randomId (Some (n - 1)) fn (Db c) w')"
proof -
  let ?f = "\<lambda>w. case transactionalQuery_attempt randomId fn c w of (r, tx, w') \<Rightarrow> (r, w')"
  have tq: "transactionalQuery randomId (Some m) fn (Db c) v =
      (fst (retry m ?f v), Db c, snd (retry m ?f v))" for m v
    unfolding transactionalQuery_def by (simp only: Let_def option.case DbOrTx.case split_beta)
  obtain r tx w' where a: "transactionalQuery_attempt randomId fn c w = (r, tx, w')"
    by (cases "transactionalQuery_attempt randomId fn c w")
  have fw: "?f w = (r, w')" using a by simp
  show ?thesis
  proof (cases r)
    case (Inr x)
    have "retry n ?f w = (Inr x, w')" using fw unfolding Inr by (rule retry_success)
    then show ?thesis unfolding tq a Inr by simp
  next
    case (Inl e)
    show ?thesis
    proof (cases "n \<le> 0 \<or> e \<noteq> ReadWriteConflictError")
      case True
      have "retry n ?f w = (Inl e, w')"
        using True fw unfolding Inl by (auto intro: retry_exhausted retry_other_error)
      then show ?thesis unfolding tq a Inl using True by simp
    next
      case False
      then have "retry n ?f w = retry (n - 1) ?f w'"
        using fw unfolding Inl by (intro retry_conflict) simp_all
      then show ?thesis unfolding tq a Inl using False by simp
    qed
  qed
qed

text \<open>
  C3. When an attempt of \<open>transactionalQuery\<close> over a client fails with an error that is
  not a \<open>ReadWriteConflictError\<close>, the call ends there: it throws that error, and the state
  it leaves is the state after that one attempt, whatever the retry count.
\<close>

theorem transactionalQuery_rethrows_other_errors:
  assumes "transactionalQuery_attempt randomId fn c w = (Inl e, tx, w')"
    and "e \<noteq> ReadWriteConflictError"
  shows "transactionalQuery randomId retries fn (Db c) w = (Inl e, Db c, w')"
proof -
  let ?f = "\<lambda>w. case transactionalQuery_attempt randomId fn c w of (r, tx, w') \<Rightarrow> (r, w')"
  have "?f w = (Inl e, w')" using assms(1) by simp
  then have "retry n ?f w = (Inl e, w')" for n
    using assms(2) by (rule retry_other_error)
  then show ?thesis by (simp add: transactionalQuery_def)
qed

text \<open>
  A user function that throws \<open>Error("boom")\<close>, over the engine that lists its calls:
  the engine sees one \<open>cancel\<close> and the error comes out after that single attempt.
\<close>

theorem transactionalQuery_rethrows_other_errors_witness:
  "transactionalQuery_attempt fixedId throwsBoom conflictClient []
     = (Inl (Error ''boom''), conflictTx\<lparr>canceled := True\<rparr>, [''cancel''])
   \<and> Error ''boom'' \<noteq> ReadWriteConflictError
   \<and> transactionalQuery fixedId None throwsBoom (Db conflictClient) []
     = (Inl (Error ''boom'') :: error + unit, Db conflictClient, [''cancel''])"
proof -
  have a: "transactionalQuery_attempt fixedId throwsBoom conflictClient []
     = (Inl (Error ''boom''), conflictTx\<lparr>canceled := True\<rparr>, [''cancel''])"
    by (simp add: transactionalQuery_attempt_def TupleDatabaseClient_transact_def fixedId_def
        conflictClient_def throwsBoom_def TupleTransaction_cancel_def checkActive_def
        conflictDb_def conflictTx_def)
  have b: "Error ''boom'' \<noteq> ReadWriteConflictError" by simp
  show ?thesis
    using transactionalQuery_rethrows_other_errors[OF a b, of None] a b by simp
qed

text \<open>
  C2, as stated, fails. With the default count the user function that throws a conflict
  on every attempt is invoked six times, not at most five: the state it counts in goes
  from 0 to 6 before the error comes out.
\<close>

theorem default_retries_run_six_attempts:
  "transactionalQuery fixedId None alwaysConflicts (Db countingClient) 0
     = (Inl ReadWriteConflictError, Db countingClient, 6)
   \<and> \<not> snd (snd (transactionalQuery fixedId None alwaysConflicts (Db countingClient) 0)) \<le> 5"
proof -
  let ?f = "\<lambda>w. case transactionalQuery_attempt fixedId alwaysConflicts countingClient w of
                   (r, tx, w') \<Rightarrow> (r, w')"
  have "\<forall>w. ?f w = (Inl ReadWriteConflictError, Suc w)"
    by (simp add: counting_attempt)
  then have "retry 5 ?f 0 = (Inl ReadWriteConflictError, (Suc ^^ Suc 5) 0)"
    by (rule retry_all_conflict) simp
  then have "retry 5 ?f 0 = (Inl ReadWriteConflictError, 6)" by simp
  then show ?thesis by (simp add: transactionalQuery_def)
qed

text \<open>
  The conflicts of one run. \<open>retry\<close> calls \<open>fn\<close> on the state the attempt before left; when the
  first \<open>k + 1\<close> of these calls throw a conflict, where \<open>k\<close> is the retry count (0 when it is
  not positive), the loop makes exactly these \<open>k + 1\<close> calls and throws the conflict. Nothing
  is asked of \<open>fn\<close> on any other state.
\<close>

lemma retry_run_conflict:
  "nat n = k \<Longrightarrow>
   \<forall>j\<le>k. fn ((g ^^ j) w) = (Inl ReadWriteConflictError, g ((g ^^ j) w)) \<Longrightarrow>
   retry n fn w = (Inl ReadWriteConflictError, (g ^^ Suc k) w)"
proof (induction k arbitrary: n w)
  case 0
  have "fn w = (Inl ReadWriteConflictError, g w)" using 0(2) by simp
  moreover have "n \<le> 0" using 0(1) by simp
  ultimately have "retry n fn w = (Inl ReadWriteConflictError, g w)"
    by (rule retry_exhausted)
  then show ?case by simp
next
  case (Suc k)
  have "fn ((g ^^ 0) w) = (Inl ReadWriteConflictError, g ((g ^^ 0) w))"
    using Suc.prems(2) by blast
  then have fw: "fn w = (Inl ReadWriteConflictError, g w)" by simp
  have pos: "0 < n" and k: "nat (n - 1) = k" using Suc.prems(1) by simp_all
  have rest: "\<forall>j\<le>k. fn ((g ^^ j) (g w)) = (Inl ReadWriteConflictError, g ((g ^^ j) (g w)))"
  proof (intro allI impI)
    fix j assume "j \<le> k"
    then have "Suc j \<le> Suc k" by simp
    then have "fn ((g ^^ Suc j) w) = (Inl ReadWriteConflictError, g ((g ^^ Suc j) w))"
      using Suc.prems(2) by blast
    moreover have "(g ^^ Suc j) w = (g ^^ j) (g w)" by (simp add: funpow_swap1)
    ultimately show "fn ((g ^^ j) (g w)) = (Inl ReadWriteConflictError, g ((g ^^ j) (g w)))"
      by simp
  qed
  have "retry n fn w = retry (n - 1) fn (g w)"
    using fw pos by (rule retry_conflict)
  also have "\<dots> = (Inl ReadWriteConflictError, (g ^^ Suc k) (g w))"
    using k rest by (rule Suc.IH)
  also have "(g ^^ Suc k) (g w) = (g ^^ Suc (Suc k)) w"
    by (simp add: funpow_swap1)
  finally show ?case .
qed

lemma transactionalQuery_run_conflict:
  assumes "\<forall>k\<le>nat m. fst (transactionalQuery_attempt randomId fn c
             (((\<lambda>w. snd (snd (transactionalQuery_attempt randomId fn c w))) ^^ k) w))
           = Inl ReadWriteConflictError"
  shows "retry m (\<lambda>w. case transactionalQuery_attempt randomId fn c w of (r, tx, w') \<Rightarrow> (r, w')) w
       = (Inl ReadWriteConflictError,
          ((\<lambda>w. snd (snd (transactionalQuery_attempt randomId fn c w))) ^^ Suc (nat m)) w)"
proof -
  let ?f = "\<lambda>w. case transactionalQuery_attempt randomId fn c w of (r, tx, w') \<Rightarrow> (r, w')"
  define g where "g = (\<lambda>w. snd (snd (transactionalQuery_attempt randomId fn c w)))"
  have fg: "?f v = (fst (transactionalQuery_attempt randomId fn c v), g v)" for v
    by (simp add: g_def split_beta)
  have "\<forall>j\<le>nat m. ?f ((g ^^ j) w) = (Inl ReadWriteConflictError, g ((g ^^ j) w))"
    using assms unfolding g_def[symmetric] by (simp add: fg)
  then have "retry m ?f w = (Inl ReadWriteConflictError, (g ^^ Suc (nat m)) w)"
    by (intro retry_run_conflict[where fn = ?f and g = g]) simp_all
  then show ?thesis unfolding g_def .
qed

lemma below_ten_attempt:
  "transactionalQuery_attempt fixedId conflictsBelowTen countingClient n =
     (if n < 10
      then (Inl ReadWriteConflictError,
            (fst (TupleDatabaseClient_transact fixedId countingClient None n))\<lparr>canceled := True\<rparr>, Suc n)
      else (Inr (),
            (fst (TupleDatabaseClient_transact fixedId countingClient None n))\<lparr>committed := True\<rparr>, Suc n))"
  by (simp add: transactionalQuery_attempt_def TupleDatabaseClient_transact_def fixedId_def
      countingClient_def conflictsBelowTen_def TupleTransaction_cancel_def
      TupleTransaction_commit_def checkActive_def nullDb_def)

text \<open>
  C2, amended. \<open>retries\<close> counts the retries, not the attempts. An attempt of
  \<open>transactionalQuery\<close> over a client is \<open>transactionalQuery_attempt\<close>; the \<open>k\<close>-th attempt of
  a run from the state \<open>w\<close> (counting from 0) starts on the state that \<open>k\<close> attempts leave
  behind, each on the state the one before left. With the default \<open>retries = 5\<close>: when the
  attempts 0 to 5 of the run fail with \<open>ReadWriteConflictError\<close>, the run is exactly these
  six attempts (so the user function is invoked six times) and then the conflict error
  comes out. With \<open>retries = n\<close>: when the attempts 0 to \<open>n\<close> of the run fail with the
  conflict error (the attempt 0 alone when \<open>n \<le> 0\<close>), the run is exactly these \<open>n + 1\<close>
  attempts (one when \<open>n \<le> 0\<close>) and then the conflict error comes out. Nothing is assumed
  of an attempt on a state the run does not reach.
\<close>

theorem transactionalQuery_attempt_count:
  "((\<forall>k\<le>5. fst (transactionalQuery_attempt randomId fn c
        (((\<lambda>w. snd (snd (transactionalQuery_attempt randomId fn c w))) ^^ k) w))
       = Inl ReadWriteConflictError)
    \<longrightarrow> transactionalQuery randomId None fn (Db c) w =
          (Inl ReadWriteConflictError, Db c,
           ((\<lambda>w. snd (snd (transactionalQuery_attempt randomId fn c w))) ^^ 6) w))
   \<and> ((\<forall>k\<le>nat n. fst (transactionalQuery_attempt randomId fn c
        (((\<lambda>w. snd (snd (transactionalQuery_attempt randomId fn c w))) ^^ k) w))
       = Inl ReadWriteConflictError)
    \<longrightarrow> transactionalQuery randomId (Some n) fn (Db c) w =
          (Inl ReadWriteConflictError, Db c,
           ((\<lambda>w. snd (snd (transactionalQuery_attempt randomId fn c w))) ^^ Suc (nat n)) w))"
proof (intro conjI impI)
  assume h: "\<forall>k\<le>5. fst (transactionalQuery_attempt randomId fn c
        (((\<lambda>w. snd (snd (transactionalQuery_attempt randomId fn c w))) ^^ k) w))
       = Inl ReadWriteConflictError"
  have five: "nat 5 = 5" and six: "Suc (nat 5) = 6" by simp_all
  show "transactionalQuery randomId None fn (Db c) w =
          (Inl ReadWriteConflictError, Db c,
           ((\<lambda>w. snd (snd (transactionalQuery_attempt randomId fn c w))) ^^ 6) w)"
    using transactionalQuery_run_conflict[of 5 randomId fn c w] h unfolding five six
    by (simp add: transactionalQuery_def)
next
  assume h: "\<forall>k\<le>nat n. fst (transactionalQuery_attempt randomId fn c
        (((\<lambda>w. snd (snd (transactionalQuery_attempt randomId fn c w))) ^^ k) w))
       = Inl ReadWriteConflictError"
  show "transactionalQuery randomId (Some n) fn (Db c) w =
          (Inl ReadWriteConflictError, Db c,
           ((\<lambda>w. snd (snd (transactionalQuery_attempt randomId fn c w))) ^^ Suc (nat n)) w)"
    using transactionalQuery_run_conflict[OF h] by (simp add: transactionalQuery_def)
qed

text \<open>
  The user function that conflicts on its first ten invocations only, run from the
  count 0: the attempts on the counts 0 to 5 conflict, the one on the count 10 would
  succeed. The default runs six attempts and \<open>retries = 2\<close> runs three; the count the
  run leaves is the number of invocations.
\<close>

theorem transactionalQuery_attempt_count_witness:
  "fst (transactionalQuery_attempt fixedId conflictsBelowTen countingClient 0) = Inl ReadWriteConflictError
   \<and> fst (transactionalQuery_attempt fixedId conflictsBelowTen countingClient 2) = Inl ReadWriteConflictError
   \<and> fst (transactionalQuery_attempt fixedId conflictsBelowTen countingClient 5) = Inl ReadWriteConflictError
   \<and> fst (transactionalQuery_attempt fixedId conflictsBelowTen countingClient 10) = Inr ()
   \<and> transactionalQuery fixedId None conflictsBelowTen (Db countingClient) 0
       = (Inl ReadWriteConflictError, Db countingClient, 6)
   \<and> transactionalQuery fixedId (Some 2) conflictsBelowTen (Db countingClient) 0
       = (Inl ReadWriteConflictError, Db countingClient, 3)"
proof -
  have g: "(\<lambda>w. snd (snd (transactionalQuery_attempt fixedId conflictsBelowTen countingClient w))) = Suc"
    by (auto simp: below_ten_attempt)
  have h5: "\<forall>k\<le>5. fst (transactionalQuery_attempt fixedId conflictsBelowTen countingClient
        (((\<lambda>w. snd (snd (transactionalQuery_attempt fixedId conflictsBelowTen countingClient w))) ^^ k) 0))
       = Inl ReadWriteConflictError"
    unfolding g by (simp add: below_ten_attempt)
  have h2: "\<forall>k\<le>nat 2. fst (transactionalQuery_attempt fixedId conflictsBelowTen countingClient
        (((\<lambda>w. snd (snd (transactionalQuery_attempt fixedId conflictsBelowTen countingClient w))) ^^ k) 0))
       = Inl ReadWriteConflictError"
    unfolding g by (simp add: below_ten_attempt)
  note T = transactionalQuery_attempt_count[of fixedId conflictsBelowTen countingClient 0 2]
  have a: "transactionalQuery fixedId None conflictsBelowTen (Db countingClient) 0
       = (Inl ReadWriteConflictError, Db countingClient, 6)"
    using T[THEN conjunct1] h5 unfolding g by simp
  have b: "transactionalQuery fixedId (Some 2) conflictsBelowTen (Db countingClient) 0
       = (Inl ReadWriteConflictError, Db countingClient, 3)"
    using T[THEN conjunct2] h2 unfolding g by simp
  show ?thesis using a b by (simp add: below_ten_attempt)
qed

text \<open>
  C8, as stated, fails. A user function may close its transaction before it throws.
  Here it calls \<open>tx.commit()\<close> itself, on the engine whose \<open>commit\<close> throws the conflict
  error, and lets that error escape. The wrapper's \<open>tx.cancel()\<close> then throws
  already-committed: that is the error that comes out of the attempt, not the one the
  user function threw; the engine's \<open>cancel\<close> is never called; and since the error is
  no longer a conflict, \<open>transactionalQuery\<close> does not retry.
\<close>

theorem wrapper_cancel_throws_on_closed_transaction:
  "commitsItself conflictTx [] = (Inl ReadWriteConflictError, conflictTx\<lparr>committed := True\<rparr>, [''commit''])
   \<and> transactionalQuery_attempt fixedId commitsItself conflictClient []
       = (Inl (Error ''Transaction already committed''), conflictTx\<lparr>committed := True\<rparr>, [''commit''])
   \<and> transactionalQuery fixedId None commitsItself (Db conflictClient) []
       = (Inl (Error ''Transaction already committed''), Db conflictClient, [''commit''])"
proof -
  have t: "TupleDatabaseClient_transact fixedId conflictClient None [] = (conflictTx, [])"
    by (simp add: conflictTx_def TupleDatabaseClient_transact_def fixedId_def)
  have a: "commitsItself conflictTx [] =
      (Inl ReadWriteConflictError, conflictTx\<lparr>committed := True\<rparr>, [''commit''])"
    by (simp add: commitsItself_def conflictTx_def TupleDatabaseClient_transact_def fixedId_def
        conflictClient_def TupleTransaction_commit_def checkActive_def conflictDb_def)
  have c: "TupleTransaction_cancel (conflictTx\<lparr>committed := True\<rparr>) [''commit''] =
      (Inl (Error ''Transaction already committed''), conflictTx\<lparr>committed := True\<rparr>, [''commit''])"
    by (simp add: TupleTransaction_cancel_def checkActive_def)
  have b: "transactionalQuery_attempt fixedId commitsItself conflictClient []
       = (Inl (Error ''Transaction already committed''), conflictTx\<lparr>committed := True\<rparr>, [''commit''])"
    using attempt_fn_throws[where fn = commitsItself, OF t a c] by simp
  let ?f = "\<lambda>w. case transactionalQuery_attempt fixedId commitsItself conflictClient w of
                   (r, tx, w') \<Rightarrow> (r, w')"
  have "?f [] = (Inl (Error ''Transaction already committed''), [''commit''])"
    using b by simp
  then have "retry 5 ?f [] = (Inl (Error ''Transaction already committed''), [''commit''])"
    by (rule retry_other_error) simp
  then have d: "transactionalQuery fixedId None commitsItself (Db conflictClient) []
       = (Inl (Error ''Transaction already committed''), Db conflictClient, [''commit''])"
    by (simp add: transactionalQuery_def)
  show ?thesis using a b d by simp
qed

text \<open>
  C8, amended. Let the user function throw \<open>err\<close> and leave the attempt's transaction as
  \<open>tx'\<close>. If \<open>tx'\<close> is still active, the wrapper marks it canceled and calls the engine's
  \<open>cancel\<close> with its id before anything comes out of the attempt; what comes out is
  \<open>err\<close> when that \<open>cancel\<close> returns, and the error of the \<open>cancel\<close> when it throws. If the
  user function has committed or canceled \<open>tx'\<close> itself, the wrapper's \<open>cancel\<close> throws
  the transaction-closed error, which comes out in place of \<open>err\<close>, and the engine is
  not called. In every case the transaction is closed after the attempt.
\<close>

theorem failed_attempt_leaves_transaction_closed:
  assumes "TupleDatabaseClient_transact randomId c None w = (tx, w1)"
    and "fn tx w1 = (Inl err, tx', w2)"
  shows "transactionalQuery_attempt randomId fn c w =
           (if committed tx' \<or> canceled tx' then (Inl (closedError tx'), tx', w2)
            else ((case fst (db_cancel (tx_db tx') (tx_id tx') w2) of
                     Inl e \<Rightarrow> Inl e | Inr u \<Rightarrow> Inl err),
                  tx'\<lparr>canceled := True\<rparr>,
                  snd (db_cancel (tx_db tx') (tx_id tx') w2)))
       \<and> (committed (fst (snd (transactionalQuery_attempt randomId fn c w)))
            \<or> canceled (fst (snd (transactionalQuery_attempt randomId fn c w))))"
proof (intro conjI)
  show "transactionalQuery_attempt randomId fn c w =
           (if committed tx' \<or> canceled tx' then (Inl (closedError tx'), tx', w2)
            else ((case fst (db_cancel (tx_db tx') (tx_id tx') w2) of
                     Inl e \<Rightarrow> Inl e | Inr u \<Rightarrow> Inl err),
                  tx'\<lparr>canceled := True\<rparr>,
                  snd (db_cancel (tx_db tx') (tx_id tx') w2)))"
  proof (cases "committed tx' \<or> canceled tx'")
    case True
    have "TupleTransaction_cancel tx' w2 = (Inl (closedError tx'), tx', w2)"
      using True by (rule cancel_closed)
    then show ?thesis
      using attempt_fn_throws[where fn = fn, OF assms] True by simp
  next
    case False
    then have "TupleTransaction_cancel tx' w2 =
       (fst (db_cancel (tx_db tx') (tx_id tx') w2), tx'\<lparr>canceled := True\<rparr>,
        snd (db_cancel (tx_db tx') (tx_id tx') w2))"
      by (simp add: cancel_active)
    then show ?thesis using attempt_fn_throws[where fn = fn, OF assms] False by simp
  qed
  show "committed (fst (snd (transactionalQuery_attempt randomId fn c w)))
            \<or> canceled (fst (snd (transactionalQuery_attempt randomId fn c w)))"
    by (rule attempt_closes)
qed

text \<open>
  The user function that throws \<open>Error("boom")\<close> with its transaction still active: the
  engine receives \<open>cancel\<close>, the transaction is canceled, and \<open>boom\<close> comes out.
\<close>

theorem failed_attempt_leaves_transaction_closed_witness:
  "TupleDatabaseClient_transact fixedId conflictClient None [] = (conflictTx, [])
   \<and> throwsBoom conflictTx [] = (Inl (Error ''boom''), conflictTx, [])
   \<and> transactionalQuery_attempt fixedId throwsBoom conflictClient []
       = (Inl (Error ''boom''), conflictTx\<lparr>canceled := True\<rparr>, [''cancel''])
   \<and> canceled (fst (snd (transactionalQuery_attempt fixedId throwsBoom conflictClient [])))"
proof -
  have t: "TupleDatabaseClient_transact fixedId conflictClient None [] = (conflictTx, [])"
    by (simp add: conflictTx_def TupleDatabaseClient_transact_def fixedId_def)
  have f: "throwsBoom conflictTx [] = (Inl (Error ''boom'') :: error + unit, conflictTx, [])"
    by (simp add: throwsBoom_def)
  have s: "\<not> committed conflictTx" "\<not> canceled conflictTx" "tx_db conflictTx = conflictDb"
    "tx_id conflictTx = ''tx1''"
    by (simp_all add: conflictTx_def TupleDatabaseClient_transact_def fixedId_def conflictClient_def)
  have "transactionalQuery_attempt fixedId throwsBoom conflictClient []
       = (Inl (Error ''boom''), conflictTx\<lparr>canceled := True\<rparr>, [''cancel''])"
    using failed_attempt_leaves_transaction_closed[where fn = throwsBoom, OF t f] s
    by (simp add: conflictDb_def)
  then show ?thesis using t f by simp
qed

section \<open>Reading and writing through the buffers\<close>

lemma Val_less_iff: "Val a < Val b \<longleftrightarrow> a < b"
  by (auto simp: less_Value_def)

lemma sorted_keys_distinct: "sorted_wrt (<) (map key d) \<Longrightarrow> distinct (map key d)"
  using strict_sorted_iff by blast

lemma tv_exists_iff:
  "sorted_wrt (<) (map key d) \<Longrightarrow> tv_exists d k \<longleftrightarrow> k \<in> set (map key d)"
  by (simp only: tv_exists_keys t_exists_iff)

lemma tv_get_member:
  assumes s: "sorted_wrt (<) (map key d)" and p: "p \<in> set d"
  shows "tv_get d (key p) = Some (val p)"
proof -
  have "key p \<in> set (map key d)" using p by simp
  then obtain i where f: "binarySearch (map key d) (key p) = found i"
    using binarySearch_found_mem[OF s, of "key p"] by blast
  then have i: "i < length d" and ki: "map key d ! i = key p"
    by (auto simp: binarySearch_found_iff)
  obtain j where j: "j < length d" and dj: "d ! j = p"
    using p by (auto simp: in_set_conv_nth)
  have "map key d ! j = map key d ! i" using j dj ki by simp
  moreover have "j < length (map key d)" "i < length (map key d)" using i j by simp_all
  ultimately have "j = i"
    using sorted_keys_distinct[OF s] nth_eq_iff_index_eq by blast
  then show ?thesis using f dj by (simp add: tv_get_def)
qed

lemma tv_get_not_member:
  "k \<notin> set (map key d) \<Longrightarrow> tv_get d k = None"
proof -
  assume n: "k \<notin> set (map key d)"
  have "binarySearch (map key d) k \<noteq> found i" for i
  proof
    assume "binarySearch (map key d) k = found i"
    then have "i < length (map key d)" "map key d ! i = k" by (auto simp: binarySearch_found_iff)
    then have "k \<in> set (map key d)" using nth_mem by blast
    then show False using n by simp
  qed
  then show ?thesis by (cases "binarySearch (map key d) k") (auto simp: tv_get_def)
qed

lemma tv_get_map_of:
  assumes s: "sorted_wrt (<) (map key d)"
  shows "tv_get d k = map_of (map (\<lambda>p. (key p, val p)) d) k"
proof (cases "k \<in> set (map key d)")
  case True
  then obtain p where p: "p \<in> set d" "key p = k" by auto
  have d: "distinct (map fst (map (\<lambda>p. (key p, val p)) d))"
    using sorted_keys_distinct[OF s] by (simp add: comp_def)
  have "(k, val p) \<in> set (map (\<lambda>p. (key p, val p)) d)" using p by force
  then have "map_of (map (\<lambda>p. (key p, val p)) d) k = Some (val p)"
    using d by simp
  then show ?thesis using tv_get_member[OF s p(1)] p(2) by simp
next
  case False
  then have "map_of (map (\<lambda>p. (key p, val p)) d) k = None"
    by (simp add: map_of_eq_None_iff image_image)
  then show ?thesis using tv_get_not_member[OF False] by simp
qed

lemma tv_set_member: "\<lparr>key = k, val = v\<rparr> \<in> set (tv_set d k v)"
proof (cases "binarySearch (map key d) k")
  case (found i)
  then have "i < length d" by (auto simp: binarySearch_found_iff)
  then show ?thesis using found by (simp add: tv_set_def set_update_memI)
next
  case (closest i)
  then show ?thesis by (simp add: tv_set_def)
qed

lemma sorted_tv_set:
  "sorted_wrt (<) (map key d) \<Longrightarrow> sorted_wrt (<) (map key (tv_set d k v))"
  by (simp add: keys_tv_set sorted_t_set)

lemma sorted_tv_remove:
  "sorted_wrt (<) (map key d) \<Longrightarrow> sorted_wrt (<) (map key (tv_remove d k))"
  by (simp add: keys_tv_remove sorted_t_remove)

lemma tv_get_tv_set_same:
  assumes "sorted_wrt (<) (map key d)"
  shows "tv_get (tv_set d k v) k = Some v"
  using tv_get_member[OF sorted_tv_set[OF assms, of k v] tv_set_member[of k v d]] by simp

text \<open>
  C7. On an active transaction, \<open>get(t)\<close> looks for the full tuple (the prefix followed
  by \<open>t\<close>) in the set buffer and returns the value buffered for it; failing that it
  returns \<open>undefined\<close> when the full tuple is in the remove buffer; failing that it asks
  the engine, under the transaction's id, for the single-point range: \<open>gte\<close> and \<open>lte\<close> are
  both the full tuple, and \<open>prefix\<close>, \<open>gt\<close>, \<open>lt\<close> and \<open>limit\<close> are absent. It returns
  \<open>undefined\<close> on no pair, the value of a single pair, and throws
  \<open>Get expects only one value.\<close> on more than one. (What the engine throws comes out
  unchanged.) The buffers are sorted arrays, as every sequence of calls leaves them
  (\<open>reachable_buffers_sorted\<close>).
\<close>

theorem get_reads_buffers_then_engine:
  assumes "\<not> committed tx" and "\<not> canceled tx"
    and "buffers_sorted (writes tx)"
  shows "TupleTransaction_get tx t w =
     (if tx_subspacePrefix tx @ t \<in> set (map key (w_set (writes tx)))
      then (Inr (map_of (map (\<lambda>p. (key p, val p)) (w_set (writes tx)))
                   (tx_subspacePrefix tx @ t)), w)
      else if tx_subspacePrefix tx @ t \<in> set (w_remove (writes tx)) then (Inr None, w)
      else case db_scan (tx_db tx)
                  \<lparr>prefix = None, gt = None, gte = Some (tx_subspacePrefix tx @ t),
                   lt = None, lte = Some (tx_subspacePrefix tx @ t), limit = None\<rparr>
                  (Some (tx_id tx)) w of
             (Inl e, w') \<Rightarrow> (Inl e, w')
           | (Inr [], w') \<Rightarrow> (Inr None, w')
           | (Inr [p], w') \<Rightarrow> (Inr (Some (val p)), w')
           | (Inr (p # q # rest), w') \<Rightarrow> (Inl (Error ''Get expects only one value.''), w'))"
proof -
  let ?k = "tx_subspacePrefix tx @ t"
  have ca: "checkActive tx = Inr ()" using assms(1,2) by (simp add: checkActive_def)
  have s1: "sorted_wrt (<) (map key (w_set (writes tx)))"
    and s2: "sorted_wrt (<) (w_remove (writes tx))"
    using assms(3) by (simp_all add: buffers_sorted_def)
  have ex1: "tv_exists (w_set (writes tx)) ?k \<longleftrightarrow> ?k \<in> set (map key (w_set (writes tx)))"
    using s1 by (rule tv_exists_iff)
  have ex2: "t_exists (w_remove (writes tx)) ?k \<longleftrightarrow> ?k \<in> set (w_remove (writes tx))"
    using s2 by (rule t_exists_iff)
  have g: "tv_get (w_set (writes tx)) ?k = map_of (map (\<lambda>p. (key p, val p)) (w_set (writes tx))) ?k"
    using s1 by (rule tv_get_map_of)
  show ?thesis
    using ca ex1 ex2 g
    by (simp add: TupleTransaction_get_def prependPrefixToTuple_def point_range_def
        split: prod.splits sum.splits list.splits)
qed

text \<open>
  After \<open>set([2], 7)\<close> and \<open>remove([4])\<close> on a fresh transaction over the in-memory
  engine holding \<open>([3], 9)\<close> and \<open>([4], 1)\<close>: \<open>get([2])\<close> is the buffered 7, \<open>get([4])\<close> is
  \<open>undefined\<close> although the engine holds it, and \<open>get([3])\<close> is the engine's 9, the one
  pair the engine returns for \<open>gte = lte = [3]\<close>.
\<close>

theorem get_reads_buffers_then_engine_witness:
  "\<not> committed (run_calls memTx [SetCall [Val 2] 7, RemoveCall [Val 4]])
   \<and> \<not> canceled (run_calls memTx [SetCall [Val 2] 7, RemoveCall [Val 4]])
   \<and> buffers_sorted (writes (run_calls memTx [SetCall [Val 2] 7, RemoveCall [Val 4]]))
   \<and> TupleTransaction_get (run_calls memTx [SetCall [Val 2] 7, RemoveCall [Val 4]]) [Val 2]
        [\<lparr>key = [Val 3], val = 9\<rparr>, \<lparr>key = [Val 4], val = 1\<rparr>]
      = (Inr (Some 7), [\<lparr>key = [Val 3], val = 9\<rparr>, \<lparr>key = [Val 4], val = 1\<rparr>])
   \<and> TupleTransaction_get (run_calls memTx [SetCall [Val 2] 7, RemoveCall [Val 4]]) [Val 4]
        [\<lparr>key = [Val 3], val = 9\<rparr>, \<lparr>key = [Val 4], val = 1\<rparr>]
      = (Inr None, [\<lparr>key = [Val 3], val = 9\<rparr>, \<lparr>key = [Val 4], val = 1\<rparr>])
   \<and> TupleTransaction_get (run_calls memTx [SetCall [Val 2] 7, RemoveCall [Val 4]]) [Val 3]
        [\<lparr>key = [Val 3], val = 9\<rparr>, \<lparr>key = [Val 4], val = 1\<rparr>]
      = (Inr (Some 9), [\<lparr>key = [Val 3], val = 9\<rparr>, \<lparr>key = [Val 4], val = 1\<rparr>])"
proof -
  let ?tx = "run_calls memTx [SetCall [Val 2] 7, RemoveCall [Val 4]]"
  let ?w = "[\<lparr>key = [Val 3], val = 9\<rparr>, \<lparr>key = [Val 4], val = 1\<rparr>] :: (nat, nat) KeyValuePair list"
  have tx: "?tx = memTx\<lparr>writes := \<lparr>w_set = [\<lparr>key = [Val 2], val = 7\<rparr>], w_remove = [[Val 4]]\<rparr>\<rparr>"
    by (simp add: memTx_def TupleDatabaseClient_transact_def fixedId_def memClient_def
        TupleTransaction_set_def TupleTransaction_remove_def checkActive_def
        prependPrefixToTuple_def t_remove_def t_set_def tv_set_def tv_remove_def binarySearch_def
        Val_less_iff Let_def)
  have m: "tx_db memTx = memDb" "tx_subspacePrefix memTx = []" "tx_id memTx = ''tx1''"
    "\<not> committed memTx" "\<not> canceled memTx"
    by (simp_all add: memTx_def TupleDatabaseClient_transact_def fixedId_def memClient_def)
  have a: "\<not> committed ?tx" and b: "\<not> canceled ?tx" and c: "buffers_sorted (writes ?tx)"
    using m unfolding tx by (simp_all add: buffers_sorted_def)
  have s: "db_scan memDb
             \<lparr>prefix = None, gt = None, gte = Some [Val 3], lt = None, lte = Some [Val 3], limit = None\<rparr>
             (Some ''tx1'') ?w = (Inr [\<lparr>key = [Val 3], val = 9\<rparr>], ?w)"
    by code_simp
  have g2: "TupleTransaction_get ?tx [Val 2] ?w = (Inr (Some 7), ?w)"
    using get_reads_buffers_then_engine[OF a b c, of "[Val 2]" ?w] m unfolding tx by simp
  have g4: "TupleTransaction_get ?tx [Val 4] ?w = (Inr None, ?w)"
    using get_reads_buffers_then_engine[OF a b c, of "[Val 4]" ?w] m unfolding tx by simp
  have g3: "TupleTransaction_get ?tx [Val 3] ?w = (Inr (Some 9), ?w)"
    using get_reads_buffers_then_engine[OF a b c, of "[Val 3]" ?w] m s unfolding tx by simp
  show ?thesis by (intro conjI a b c g2 g4 g3)
qed

text \<open>
  C5. \<open>subspace(Q)\<close> on a client with prefix \<open>P\<close> returns a new client over the same
  engine with prefix \<open>P ++ Q\<close> (the model of \<open>subspace\<close> is a function of the parent
  and has nothing of it to change), and \<open>transact\<close> hands that prefix and empty buffers
  to the transaction. On an active transaction with prefix \<open>P\<close>, \<open>set(t, v)\<close> returns,
  leaves the pair \<open>(P ++ t, v)\<close> in the set buffer as the value buffered for \<open>P ++ t\<close>,
  and leaves \<open>P ++ t\<close> out of the remove buffer; \<open>commit\<close> then hands exactly the
  buffered batch to the engine under the transaction's id. A client's own \<open>commit\<close>
  prepends the prefix to the keys of the batch. On the in-memory engine, starting
  empty, \<open>db.subspace(["game","g1"]).transact().set(["total"], 3).commit()\<close> leaves the
  storage holding the one pair \<open>(["game","g1","total"], 3)\<close>, which \<open>get\<close> on the parent
  client then reads.
\<close>

theorem subspace_set_commits_prefixed_key:
  assumes "\<not> committed tx" and "\<not> canceled tx"
    and "buffers_sorted (writes tx)"
  shows "fst (TupleTransaction_set tx t v) = Inr ()
       \<and> \<lparr>key = tx_subspacePrefix tx @ t, val = v\<rparr>
            \<in> set (w_set (writes (snd (TupleTransaction_set tx t v))))
       \<and> tv_get (w_set (writes (snd (TupleTransaction_set tx t v)))) (tx_subspacePrefix tx @ t)
            = Some v
       \<and> tx_subspacePrefix tx @ t \<notin> set (w_remove (writes (snd (TupleTransaction_set tx t v))))
       \<and> TupleTransaction_commit (snd (TupleTransaction_set tx t v)) w =
           (fst (db_commit (tx_db tx) (writes (snd (TupleTransaction_set tx t v)))
                   (Some (tx_id tx)) w),
            (snd (TupleTransaction_set tx t v))\<lparr>committed := True\<rparr>,
            snd (db_commit (tx_db tx) (writes (snd (TupleTransaction_set tx t v)))
                   (Some (tx_id tx)) w))
       \<and> subspacePrefix (TupleDatabaseClient_subspace c Q) = subspacePrefix c @ Q
       \<and> db (TupleDatabaseClient_subspace c Q) = db c
       \<and> tx_subspacePrefix (fst (TupleDatabaseClient_transact randomId
            (TupleDatabaseClient_subspace c Q) txId w0)) = subspacePrefix c @ Q
       \<and> tx_db (fst (TupleDatabaseClient_transact randomId
            (TupleDatabaseClient_subspace c Q) txId w0)) = db c
       \<and> writes (fst (TupleDatabaseClient_transact randomId
            (TupleDatabaseClient_subspace c Q) txId w0)) = \<lparr>w_set = [], w_remove = []\<rparr>
       \<and> TupleDatabaseClient_commit (TupleDatabaseClient_subspace c Q)
            \<lparr>w_set = [\<lparr>key = t, val = v\<rparr>], w_remove = []\<rparr> txId w
          = db_commit (db c)
              \<lparr>w_set = [\<lparr>key = subspacePrefix c @ Q @ t, val = v\<rparr>], w_remove = []\<rparr> txId w
       \<and> snd (snd (TupleTransaction_commit
            (snd (TupleTransaction_set
               (fst (TupleDatabaseClient_transact fixedId
                  (TupleDatabaseClient_subspace gameClient [Val ''game'', Val ''g1'']) None []))
               [Val ''total''] 3))
            []))
          = [\<lparr>key = [Val ''game'', Val ''g1'', Val ''total''], val = 3\<rparr>]
       \<and> TupleDatabaseClient_get gameClient [Val ''game'', Val ''g1'', Val ''total''] None
            [\<lparr>key = [Val ''game'', Val ''g1'', Val ''total''], val = 3\<rparr>]
          = (Inr (Some 3), [\<lparr>key = [Val ''game'', Val ''g1'', Val ''total''], val = 3\<rparr>])"
proof -
  let ?k = "tx_subspacePrefix tx @ t"
  let ?tx' = "snd (TupleTransaction_set tx t v)"
  have ca: "checkActive tx = Inr ()" using assms(1,2) by (simp add: checkActive_def)
  have s1: "sorted_wrt (<) (map key (w_set (writes tx)))"
    and s2: "sorted_wrt (<) (w_remove (writes tx))"
    using assms(3) by (simp_all add: buffers_sorted_def)
  have st: "TupleTransaction_set tx t v =
      (Inr (), tx\<lparr>writes := \<lparr>w_set = tv_set (w_set (writes tx)) ?k v,
                             w_remove = t_remove (w_remove (writes tx)) ?k\<rparr>\<rparr>)"
    using ca by (simp add: TupleTransaction_set_def prependPrefixToTuple_def Let_def)
  have p1: "fst (TupleTransaction_set tx t v) = Inr ()" by (simp add: st)
  have p2: "\<lparr>key = ?k, val = v\<rparr> \<in> set (w_set (writes ?tx'))"
    by (simp add: st tv_set_member)
  have p3: "tv_get (w_set (writes ?tx')) ?k = Some v"
    using tv_get_tv_set_same[OF s1] by (simp add: st)
  have p4: "?k \<notin> set (w_remove (writes ?tx'))"
    using set_t_remove[OF s2] by (simp add: st)
  have act: "\<not> committed ?tx'" "\<not> canceled ?tx'" using assms(1,2) by (simp_all add: st)
  have p5: "TupleTransaction_commit ?tx' w =
           (fst (db_commit (tx_db tx) (writes ?tx') (Some (tx_id tx)) w),
            ?tx'\<lparr>committed := True\<rparr>,
            snd (db_commit (tx_db tx) (writes ?tx') (Some (tx_id tx)) w))"
    using commit_active[OF act, of w] by (simp add: st)
  have p6: "subspacePrefix (TupleDatabaseClient_subspace c Q) = subspacePrefix c @ Q"
    and p7: "db (TupleDatabaseClient_subspace c Q) = db c"
    by (simp_all add: TupleDatabaseClient_subspace_def)
  have p8: "tx_subspacePrefix (fst (TupleDatabaseClient_transact randomId
            (TupleDatabaseClient_subspace c Q) txId w0)) = subspacePrefix c @ Q"
    and p9: "tx_db (fst (TupleDatabaseClient_transact randomId
            (TupleDatabaseClient_subspace c Q) txId w0)) = db c"
    and p10: "writes (fst (TupleDatabaseClient_transact randomId
            (TupleDatabaseClient_subspace c Q) txId w0)) = \<lparr>w_set = [], w_remove = []\<rparr>"
    by (simp_all add: TupleDatabaseClient_transact_def TupleDatabaseClient_subspace_def
        split: prod.splits)
  have p11: "TupleDatabaseClient_commit (TupleDatabaseClient_subspace c Q)
            \<lparr>w_set = [\<lparr>key = t, val = v\<rparr>], w_remove = []\<rparr> txId w
          = db_commit (db c)
              \<lparr>w_set = [\<lparr>key = subspacePrefix c @ Q @ t, val = v\<rparr>], w_remove = []\<rparr> txId w"
    by (simp add: TupleDatabaseClient_commit_def TupleDatabaseClient_subspace_def
        prependPrefixToWrites_def prependPrefixToTuple_def)
  have p12: "snd (snd (TupleTransaction_commit
            (snd (TupleTransaction_set
               (fst (TupleDatabaseClient_transact fixedId
                  (TupleDatabaseClient_subspace gameClient [Val ''game'', Val ''g1'']) None []))
               [Val ''total''] 3))
            []))
          = [\<lparr>key = [Val ''game'', Val ''g1'', Val ''total''], val = 3\<rparr>]"
    by code_simp
  have p13: "TupleDatabaseClient_get gameClient [Val ''game'', Val ''g1'', Val ''total''] None
            [\<lparr>key = [Val ''game'', Val ''g1'', Val ''total''], val = 3\<rparr>]
          = (Inr (Some 3), [\<lparr>key = [Val ''game'', Val ''g1'', Val ''total''], val = 3\<rparr>])"
    by code_simp
  show ?thesis by (intro conjI p1 p2 p3 p4 p5 p6 p7 p8 p9 p10 p11 p12 p13)
qed

text \<open>
  A transaction that has \<open>[2]\<close> buffered as a remove: \<open>set([2], 7)\<close> takes it out of the
  remove buffer, and the commit hands the in-memory engine the one set.
\<close>

theorem subspace_set_commits_prefixed_key_witness:
  "\<not> committed (run_calls memTx [RemoveCall [Val 2]])
   \<and> \<not> canceled (run_calls memTx [RemoveCall [Val 2]])
   \<and> buffers_sorted (writes (run_calls memTx [RemoveCall [Val 2]]))
   \<and> writes (run_calls memTx [RemoveCall [Val 2]]) = \<lparr>w_set = [], w_remove = [[Val 2]]\<rparr>
   \<and> writes (snd (TupleTransaction_set (run_calls memTx [RemoveCall [Val 2]]) [Val 2] 7))
        = \<lparr>w_set = [\<lparr>key = [Val 2], val = 7\<rparr>], w_remove = []\<rparr>
   \<and> [Val 2] \<notin> set (w_remove (writes
        (snd (TupleTransaction_set (run_calls memTx [RemoveCall [Val 2]]) [Val 2] 7))))
   \<and> snd (snd (TupleTransaction_commit
        (snd (TupleTransaction_set (run_calls memTx [RemoveCall [Val 2]]) [Val 2] 7)) []))
        = [\<lparr>key = [Val 2], val = 7\<rparr>]"
proof -
  let ?tx = "run_calls memTx [RemoveCall [Val 2]]"
  have m: "tx_db memTx = memDb" "tx_subspacePrefix memTx = []" "tx_id memTx = ''tx1''"
    "\<not> committed memTx" "\<not> canceled memTx" "writes memTx = \<lparr>w_set = [], w_remove = []\<rparr>"
    by (simp_all add: memTx_def TupleDatabaseClient_transact_def fixedId_def memClient_def)
  have tx: "?tx = memTx\<lparr>writes := \<lparr>w_set = [], w_remove = [[Val 2]]\<rparr>\<rparr>"
    using m by (simp add: TupleTransaction_remove_def checkActive_def
        prependPrefixToTuple_def t_set_def tv_remove_def binarySearch_def)
  have a: "\<not> committed ?tx" and b: "\<not> canceled ?tx" and c: "buffers_sorted (writes ?tx)"
    and d: "writes ?tx = \<lparr>w_set = [], w_remove = [[Val 2]]\<rparr>"
    using m unfolding tx by (simp_all add: buffers_sorted_def)
  have e: "writes (snd (TupleTransaction_set ?tx [Val 2] 7))
        = \<lparr>w_set = [\<lparr>key = [Val 2], val = 7\<rparr>], w_remove = []\<rparr>"
    using m unfolding tx
    by (simp add: TupleTransaction_set_def checkActive_def prependPrefixToTuple_def
        t_remove_def tv_set_def binarySearch_def)
  note T = subspace_set_commits_prefixed_key[OF a b c, where t = "[Val 2]" and v = 7 and w = "[]"
      and c = memClient and Q = "[]" and randomId = fixedId and txId = None and ?w0.0 = "[]"]
  have f: "[Val 2] \<notin> set (w_remove (writes (snd (TupleTransaction_set ?tx [Val 2] 7))))"
    using T m unfolding tx by simp
  have g: "snd (snd (TupleTransaction_commit (snd (TupleTransaction_set ?tx [Val 2] 7)) []))
        = [\<lparr>key = [Val 2], val = 7\<rparr>]"
    using T[THEN conjunct2, THEN conjunct2, THEN conjunct2, THEN conjunct2, THEN conjunct1] e m
    unfolding tx
    by (simp add: memDb_def tv_set_def binarySearch_def)
  show ?thesis by (intro conjI a b c d e f g)
qed

section \<open>The two families\<close>

lemma a_checkActive_asyncTx: "a_checkActive (asyncTx tx) = checkActive tx"
  by (simp add: a_checkActive_def checkActive_def asyncTx_def)

lemma async_client_scan:
  "AsyncTupleDatabaseClient_scan (asyncClient c) args txId w =
     (case TupleDatabaseClient_scan c args txId w of (r, w') \<Rightarrow> (settled r, w'))"
  by (simp add: AsyncTupleDatabaseClient_scan_def TupleDatabaseClient_scan_def asyncClient_def
      asyncDb_def settled_def Let_def split: prod.splits sum.splits)

lemma async_client_commit:
  "AsyncTupleDatabaseClient_commit (asyncClient c) ws txId w =
     (case TupleDatabaseClient_commit c ws txId w of (r, w') \<Rightarrow> (settled r, w'))"
  by (simp add: AsyncTupleDatabaseClient_commit_def TupleDatabaseClient_commit_def asyncClient_def
      asyncDb_def settled_def Let_def split: prod.splits sum.splits)

lemma async_client_cancel:
  "AsyncTupleDatabaseClient_cancel (asyncClient c) txId w =
     (case TupleDatabaseClient_cancel c txId w of (r, w') \<Rightarrow> (settled r, w'))"
  by (simp add: AsyncTupleDatabaseClient_cancel_def TupleDatabaseClient_cancel_def asyncClient_def
      asyncDb_def)

lemma async_client_get:
  "AsyncTupleDatabaseClient_get (asyncClient c) t txId w =
     (case TupleDatabaseClient_get c t txId w of (r, w') \<Rightarrow> (settled r, w'))"
  by (simp add: AsyncTupleDatabaseClient_get_def TupleDatabaseClient_get_def async_client_scan
      settled_def split: prod.splits sum.splits)

lemma async_client_exists:
  "AsyncTupleDatabaseClient_exists (asyncClient c) t txId w =
     (case TupleDatabaseClient_exists c t txId w of (r, w') \<Rightarrow> (settled r, w'))"
  by (simp add: AsyncTupleDatabaseClient_exists_def TupleDatabaseClient_exists_def async_client_scan
      settled_def split: prod.splits sum.splits)

lemma async_client_subspace:
  "AsyncTupleDatabaseClient_subspace (asyncClient c) p = asyncClient (TupleDatabaseClient_subspace c p)"
  by (simp add: AsyncTupleDatabaseClient_subspace_def TupleDatabaseClient_subspace_def asyncClient_def)

lemma async_client_transact:
  "AsyncTupleDatabaseClient_transact randomId (asyncClient c) txId w =
     (case TupleDatabaseClient_transact randomId c txId w of (tx, w') \<Rightarrow> (asyncTx tx, w'))"
  by (simp add: AsyncTupleDatabaseClient_transact_def TupleDatabaseClient_transact_def asyncClient_def
      asyncTx_def split: prod.splits option.splits)

lemma async_tx_scan:
  "AsyncTupleTransaction_scan (asyncTx tx) args w =
     (case TupleTransaction_scan tx args w of (r, w') \<Rightarrow> (settled r, w'))"
  by (simp add: AsyncTupleTransaction_scan_def TupleTransaction_scan_def a_checkActive_asyncTx,
      simp add: asyncTx_def asyncDb_def settled_def Let_def split: prod.splits sum.splits)

lemma async_tx_get:
  "AsyncTupleTransaction_get (asyncTx tx) t w =
     (case TupleTransaction_get tx t w of (r, w') \<Rightarrow> (settled r, w'))"
  by (simp add: AsyncTupleTransaction_get_def TupleTransaction_get_def a_checkActive_asyncTx,
      simp add: asyncTx_def asyncDb_def settled_def Let_def split: prod.splits sum.splits)

lemma async_tx_exists:
  "AsyncTupleTransaction_exists (asyncTx tx) t w =
     (case TupleTransaction_exists tx t w of (r, w') \<Rightarrow> (settled r, w'))"
  by (simp add: AsyncTupleTransaction_exists_def TupleTransaction_exists_def a_checkActive_asyncTx,
      simp add: asyncTx_def asyncDb_def settled_def Let_def split: prod.splits sum.splits)

lemma async_tx_set:
  "AsyncTupleTransaction_set (asyncTx tx) t v =
     (case TupleTransaction_set tx t v of (r, tx') \<Rightarrow> (r, asyncTx tx'))"
  by (simp add: AsyncTupleTransaction_set_def TupleTransaction_set_def a_checkActive_asyncTx,
      simp add: asyncTx_def Let_def split: sum.splits)

lemma async_tx_remove:
  "AsyncTupleTransaction_remove (asyncTx tx) t =
     (case TupleTransaction_remove tx t of (r, tx') \<Rightarrow> (r, asyncTx tx'))"
  by (simp add: AsyncTupleTransaction_remove_def TupleTransaction_remove_def a_checkActive_asyncTx,
      simp add: asyncTx_def Let_def split: sum.splits)

lemma async_write_removes:
  "a_write_removes (asyncTx tx) ts =
     (case write_removes tx ts of (r, tx') \<Rightarrow> (r, asyncTx tx'))"
proof (induction ts arbitrary: tx)
  case Nil
  then show ?case by simp
next
  case (Cons t ts)
  obtain r tx' where e: "TupleTransaction_remove tx t = (r, tx')"
    by (cases "TupleTransaction_remove tx t")
  then have a: "AsyncTupleTransaction_remove (asyncTx tx) t = (r, asyncTx tx')"
    by (simp add: async_tx_remove)
  show ?case using e a Cons.IH[of tx'] by (cases r) simp_all
qed

lemma async_write_sets:
  "a_write_sets (asyncTx tx) ps =
     (case write_sets tx ps of (r, tx') \<Rightarrow> (r, asyncTx tx'))"
proof (induction ps arbitrary: tx)
  case Nil
  then show ?case by simp
next
  case (Cons p ps)
  obtain r tx' where e: "TupleTransaction_set tx (key p) (val p) = (r, tx')"
    by (cases "TupleTransaction_set tx (key p) (val p)")
  then have a: "AsyncTupleTransaction_set (asyncTx tx) (key p) (val p) = (r, asyncTx tx')"
    by (simp add: async_tx_set)
  show ?case using e a Cons.IH[of tx'] by (cases r) simp_all
qed

lemma async_tx_write:
  "AsyncTupleTransaction_write (asyncTx tx) ws =
     (case TupleTransaction_write tx ws of (r, tx') \<Rightarrow> (r, asyncTx tx'))"
proof (cases "checkActive tx")
  case (Inl e)
  then show ?thesis
    by (simp add: AsyncTupleTransaction_write_def TupleTransaction_write_def a_checkActive_asyncTx)
next
  case (Inr u)
  obtain r tx' where e: "write_removes tx (w_remove ws) = (r, tx')"
    by (cases "write_removes tx (w_remove ws)")
  then have a: "a_write_removes (asyncTx tx) (w_remove ws) = (r, asyncTx tx')"
    by (simp add: async_write_removes)
  show ?thesis
    using Inr e a
    by (cases r)
      (simp_all add: AsyncTupleTransaction_write_def TupleTransaction_write_def
        a_checkActive_asyncTx async_write_sets)
qed

lemma async_tx_commit:
  "AsyncTupleTransaction_commit (asyncTx tx) w =
     (case TupleTransaction_commit tx w of (r, tx', w') \<Rightarrow> (settled r, asyncTx tx', w'))"
  by (simp add: AsyncTupleTransaction_commit_def TupleTransaction_commit_def a_checkActive_asyncTx,
      simp add: asyncTx_def asyncDb_def settled_def Let_def split: prod.splits sum.splits)

lemma async_tx_cancel:
  "AsyncTupleTransaction_cancel (asyncTx tx) w =
     (case TupleTransaction_cancel tx w of (r, tx', w') \<Rightarrow> (settled r, asyncTx tx', w'))"
  by (simp add: AsyncTupleTransaction_cancel_def TupleTransaction_cancel_def a_checkActive_asyncTx,
      simp add: asyncTx_def asyncDb_def settled_def Let_def split: prod.splits sum.splits)

lemma async_tx_subspace:
  "AsyncTupleTransaction_subspace (asyncTx tx) p = TupleTransaction_subspace tx p"
  by (simp add: AsyncTupleTransaction_subspace_def TupleTransaction_subspace_def a_checkActive_asyncTx)

text \<open>
  C9. Over the same engine (the asynchronous client holding the synchronous engine
  behind the asynchronous interface), every operation of the asynchronous client and
  transaction settles as the synchronous one returns or throws and leaves the same
  transaction and the same state outside: \<open>scan\<close>, \<open>get\<close>, \<open>exists\<close>, \<open>commit\<close>, \<open>cancel\<close>,
  \<open>subspace\<close> and \<open>transact\<close> of the client, and \<open>scan\<close>, \<open>get\<close>, \<open>exists\<close>, \<open>set\<close>,
  \<open>remove\<close>, \<open>write\<close>, \<open>commit\<close>, \<open>cancel\<close> and \<open>subspace\<close> of the transaction. Each
  asynchronous call is run to its end before the next one starts.
\<close>

theorem async_family_matches_sync:
  "AsyncTupleDatabaseClient_scan (asyncClient c) args txId w =
     (case TupleDatabaseClient_scan c args txId w of (r, w') \<Rightarrow> (settled r, w'))
   \<and> AsyncTupleDatabaseClient_get (asyncClient c) t txId w =
     (case TupleDatabaseClient_get c t txId w of (r, w') \<Rightarrow> (settled r, w'))
   \<and> AsyncTupleDatabaseClient_exists (asyncClient c) t txId w =
     (case TupleDatabaseClient_exists c t txId w of (r, w') \<Rightarrow> (settled r, w'))
   \<and> AsyncTupleDatabaseClient_commit (asyncClient c) ws txId w =
     (case TupleDatabaseClient_commit c ws txId w of (r, w') \<Rightarrow> (settled r, w'))
   \<and> AsyncTupleDatabaseClient_cancel (asyncClient c) id' w =
     (case TupleDatabaseClient_cancel c id' w of (r, w') \<Rightarrow> (settled r, w'))
   \<and> AsyncTupleDatabaseClient_subspace (asyncClient c) p =
     asyncClient (TupleDatabaseClient_subspace c p)
   \<and> AsyncTupleDatabaseClient_transact randomId (asyncClient c) txId w =
     (case TupleDatabaseClient_transact randomId c txId w of (tx, w') \<Rightarrow> (asyncTx tx, w'))
   \<and> AsyncTupleTransaction_scan (asyncTx tx) args w =
     (case TupleTransaction_scan tx args w of (r, w') \<Rightarrow> (settled r, w'))
   \<and> AsyncTupleTransaction_get (asyncTx tx) t w =
     (case TupleTransaction_get tx t w of (r, w') \<Rightarrow> (settled r, w'))
   \<and> AsyncTupleTransaction_exists (asyncTx tx) t w =
     (case TupleTransaction_exists tx t w of (r, w') \<Rightarrow> (settled r, w'))
   \<and> AsyncTupleTransaction_set (asyncTx tx) t v =
     (case TupleTransaction_set tx t v of (r, tx') \<Rightarrow> (r, asyncTx tx'))
   \<and> AsyncTupleTransaction_remove (asyncTx tx) t =
     (case TupleTransaction_remove tx t of (r, tx') \<Rightarrow> (r, asyncTx tx'))
   \<and> AsyncTupleTransaction_write (asyncTx tx) ws =
     (case TupleTransaction_write tx ws of (r, tx') \<Rightarrow> (r, asyncTx tx'))
   \<and> AsyncTupleTransaction_commit (asyncTx tx) w =
     (case TupleTransaction_commit tx w of (r, tx', w') \<Rightarrow> (settled r, asyncTx tx', w'))
   \<and> AsyncTupleTransaction_cancel (asyncTx tx) w =
     (case TupleTransaction_cancel tx w of (r, tx', w') \<Rightarrow> (settled r, asyncTx tx', w'))
   \<and> AsyncTupleTransaction_subspace (asyncTx tx) p = TupleTransaction_subspace tx p"
  by (intro conjI async_client_scan async_client_get async_client_exists async_client_commit
      async_client_cancel async_client_subspace async_client_transact async_tx_scan async_tx_get
      async_tx_exists async_tx_set async_tx_remove async_tx_write async_tx_commit
      async_tx_cancel async_tx_subspace)

section \<open>What a scan returns\<close>

lemma tv_set_keeps:
  assumes "p \<in> set d" and "key p \<noteq> k"
  shows "p \<in> set (tv_set d k v)"
proof (cases "binarySearch (map key d) k")
  case (found i)
  then have i: "i < length d" and ki: "key (d ! i) = k"
    by (auto simp: binarySearch_found_iff)
  have "d[i := \<lparr>key = k, val = v\<rparr>] = take i d @ \<lparr>key = k, val = v\<rparr> # drop (Suc i) d"
    using i by (rule upd_conv_take_nth_drop)
  moreover have "d = take i d @ d ! i # drop (Suc i) d" using i by (rule id_take_nth_drop)
  moreover have "p \<noteq> d ! i" using assms(2) ki by auto
  ultimately have "p \<in> set (d[i := \<lparr>key = k, val = v\<rparr>])"
    using assms(1) by (metis Un_iff set_ConsD set_append list.set_intros(2))
  then show ?thesis using found by (simp add: tv_set_def)
next
  case (closest i)
  have "set d = set (take i d) \<union> set (drop i d)" by (metis append_take_drop_id set_append)
  then show ?thesis using closest assms(1) by (auto simp: tv_set_def)
qed

lemma tv_remove_keeps:
  assumes "p \<in> set d" and "key p \<noteq> k"
  shows "p \<in> set (tv_remove d k)"
proof (cases "binarySearch (map key d) k")
  case (found i)
  then have i: "i < length d" and ki: "key (d ! i) = k"
    by (auto simp: binarySearch_found_iff)
  have "d = take i d @ d ! i # drop (Suc i) d" using i by (rule id_take_nth_drop)
  moreover have "p \<noteq> d ! i" using assms(2) ki by auto
  ultimately have "p \<in> set (take i d @ drop (Suc i) d)"
    using assms(1) by (metis Un_iff set_ConsD set_append)
  then show ?thesis using found by (simp add: tv_remove_def)
next
  case (closest i)
  then show ?thesis using assms(1) by (simp add: tv_remove_def)
qed

lemma tv_get_tv_set:
  assumes s: "sorted_wrt (<) (map key d)"
  shows "tv_get (tv_set d k v) k' = (if k' = k then Some v else tv_get d k')"
proof (cases "k' = k")
  case True
  then show ?thesis using tv_get_tv_set_same[OF s] by simp
next
  case False
  have s': "sorted_wrt (<) (map key (tv_set d k v))" using s by (rule sorted_tv_set)
  show ?thesis
  proof (cases "k' \<in> set (map key d)")
    case True
    then obtain p where p: "p \<in> set d" "key p = k'" by auto
    then have "p \<in> set (tv_set d k v)" using False by (simp add: tv_set_keeps)
    then have "tv_get (tv_set d k v) k' = Some (val p)"
      using tv_get_member[OF s'] p(2) by blast
    moreover have "tv_get d k' = Some (val p)" using tv_get_member[OF s p(1)] p(2) by simp
    ultimately show ?thesis using False by simp
  next
    case n: False
    have "set (map key (tv_set d k v)) = insert k (set (map key d))"
      using set_t_set[OF s] by (simp add: keys_tv_set)
    then have "k' \<notin> set (map key (tv_set d k v))" using n False by simp
    then have "tv_get (tv_set d k v) k' = None" by (rule tv_get_not_member)
    moreover have "tv_get d k' = None" using n by (rule tv_get_not_member)
    ultimately show ?thesis using False by simp
  qed
qed

lemma tv_get_tv_remove:
  assumes s: "sorted_wrt (<) (map key d)"
  shows "tv_get (tv_remove d k) k' = (if k' = k then None else tv_get d k')"
proof -
  have s': "sorted_wrt (<) (map key (tv_remove d k))" using s by (rule sorted_tv_remove)
  have ks: "set (map key (tv_remove d k)) = set (map key d) - {k}"
    using set_t_remove[OF s] by (simp add: keys_tv_remove)
  show ?thesis
  proof (cases "k' = k")
    case True
    then have "k' \<notin> set (map key (tv_remove d k))" using ks by simp
    then show ?thesis using True by (simp add: tv_get_not_member)
  next
    case False
    show ?thesis
    proof (cases "k' \<in> set (map key d)")
      case True
      then obtain p where p: "p \<in> set d" "key p = k'" by auto
      then have "p \<in> set (tv_remove d k)" using False by (simp add: tv_remove_keeps)
      then have "tv_get (tv_remove d k) k' = Some (val p)"
        using tv_get_member[OF s'] p(2) by blast
      moreover have "tv_get d k' = Some (val p)" using tv_get_member[OF s p(1)] p(2) by simp
      ultimately show ?thesis using False by simp
    next
      case n: False
      then have "k' \<notin> set (map key (tv_remove d k))" using ks by simp
      then have "tv_get (tv_remove d k) k' = None" by (rule tv_get_not_member)
      moreover have "tv_get d k' = None" using n by (rule tv_get_not_member)
      ultimately show ?thesis using False by simp
    qed
  qed
qed

lemma foldl_tv_set:
  "sorted_wrt (<) (map key d) \<Longrightarrow>
     sorted_wrt (<) (map key (foldl (\<lambda>r p. tv_set r (f (key p)) (val p)) d ps))
     \<and> tv_get (foldl (\<lambda>r p. tv_set r (f (key p)) (val p)) d ps) k =
         (case map_of (rev (map (\<lambda>p. (f (key p), val p)) ps)) k of
            Some v \<Rightarrow> Some v | None \<Rightarrow> tv_get d k)"
proof (induction ps arbitrary: d)
  case Nil
  then show ?case by simp
next
  case (Cons p ps)
  have s': "sorted_wrt (<) (map key (tv_set d (f (key p)) (val p)))"
    using Cons.prems by (rule sorted_tv_set)
  show ?case
    using Cons.IH[OF s'] tv_get_tv_set[OF Cons.prems, of "f (key p)" "val p" k]
    by (auto simp: map_of_append map_add_def split: option.splits)
qed

lemma foldl_tv_remove:
  "sorted_wrt (<) (map key d) \<Longrightarrow>
     sorted_wrt (<) (map key (foldl (\<lambda>r t. tv_remove r (f t)) d ts))
     \<and> tv_get (foldl (\<lambda>r t. tv_remove r (f t)) d ts) k =
         (if k \<in> f ` set ts then None else tv_get d k)"
proof (induction ts arbitrary: d)
  case Nil
  then show ?case by simp
next
  case (Cons t ts)
  have s': "sorted_wrt (<) (map key (tv_remove d (f t)))"
    using Cons.prems by (rule sorted_tv_remove)
  show ?case
    using Cons.IH[OF s'] tv_get_tv_remove[OF Cons.prems, of "f t" k]
    by auto
qed

lemma found_split:
  assumes s: "sorted_wrt (<) xs" and f: "binarySearch xs b = found i"
  shows "i < length xs \<and> xs ! i = b \<and> (\<forall>y\<in>set (take i xs). y < b)
       \<and> (\<forall>y\<in>set (drop (Suc i) xs). b < y)"
proof -
  have i: "i = length (takeWhile (\<lambda>y. y < b) xs)" and lt: "i < length xs" and at: "xs ! i = b"
    using f by (auto simp: binarySearch_found_iff)
  have tk: "take i xs = filter (\<lambda>y. y < b) xs"
    using s unfolding i by (rule take_index_filter)
  have split: "xs = take i xs @ b # drop (Suc i) xs"
    using lt at by (metis id_take_nth_drop)
  have "sorted_wrt (<) (b # drop (Suc i) xs)"
    using s split by (metis sorted_wrt_append)
  then have "\<forall>y\<in>set (drop (Suc i) xs). b < y" by simp
  moreover have "\<forall>y\<in>set (take i xs). y < b" using tk by auto
  ultimately show ?thesis using lt at by simp
qed

lemma closest_split:
  assumes s: "sorted_wrt (<) xs" and c: "binarySearch xs b = closest i"
  shows "b \<notin> set xs \<and> (\<forall>y\<in>set (take i xs). y < b) \<and> (\<forall>y\<in>set (drop i xs). b < y)"
proof -
  have i: "i = length (takeWhile (\<lambda>y. y < b) xs)"
    and nf: "\<not> (i < length xs \<and> xs ! i = b)"
    using c by (auto simp: binarySearch_closest_iff)
  have notin: "b \<notin> set xs" using search_index_mem[OF s, of b] i nf by auto
  have tk: "take i xs = filter (\<lambda>y. y < b) xs"
    using s unfolding i by (rule take_index_filter)
  have dr: "drop i xs = filter (\<lambda>y. \<not> y < b) xs"
    using s unfolding i by (rule drop_index_filter)
  have "\<forall>y\<in>set (drop i xs). b < y"
  proof
    fix y assume "y \<in> set (drop i xs)"
    then have "y \<in> set xs" "\<not> y < b" using dr by auto
    moreover have "y \<noteq> b" using notin \<open>y \<in> set xs\<close> by blast
    ultimately show "b < y" using not_less_iff_gr_or_eq by blast
  qed
  moreover have "\<forall>y\<in>set (take i xs). y < b" using tk by auto
  ultimately show ?thesis using notin by simp
qed

lemma take_Suc_set:
  "i < length xs \<Longrightarrow> set (take (Suc i) xs) = insert (xs ! i) (set (take i xs))"
  by (simp add: take_Suc_conv_app_nth)

lemma drop_Suc_set:
  "i < length xs \<Longrightarrow> set (drop i xs) = insert (xs ! i) (set (drop (Suc i) xs))"
  by (metis Cons_nth_drop_Suc list.simps(15))

lemma scan_start_split:
  assumes s: "sorted_wrt (<) ks"
  shows "(\<forall>k\<in>set (take (scan_start ks args) ks). \<not> lower_ok args k)
       \<and> (\<forall>k\<in>set (drop (scan_start ks args) ks). lower_ok args k)"
proof (cases "gt args")
  case (Some b)
  show ?thesis
  proof (cases "binarySearch ks b")
    case (found i)
    have st: "scan_start ks args = Suc i" using Some found by (simp add: scan_start_def)
    from found_split[OF s found]
    show ?thesis unfolding st using Some
      by (auto simp: lower_ok_def take_Suc_set)
  next
    case (closest i)
    have st: "scan_start ks args = i" using Some closest by (simp add: scan_start_def)
    from closest_split[OF s closest]
    show ?thesis unfolding st using Some
      by (auto simp: lower_ok_def)
  qed
next
  case None
  show ?thesis
  proof (cases "gte args")
    case n: None
    then show ?thesis using None by (simp add: scan_start_def lower_ok_def)
  next
    case (Some b)
    show ?thesis
    proof (cases "binarySearch ks b")
      case (found i)
      have st: "scan_start ks args = i" using None Some found by (simp add: scan_start_def)
      from found_split[OF s found]
      show ?thesis unfolding st using None Some
        by (auto simp: lower_ok_def drop_Suc_set)
    next
      case (closest i)
      have st: "scan_start ks args = i" using None Some closest by (simp add: scan_start_def)
      from closest_split[OF s closest]
      show ?thesis unfolding st using None Some
        by (auto simp: lower_ok_def)
    qed
  qed
qed

lemma scan_end_split:
  assumes s: "sorted_wrt (<) ks"
  shows "(\<forall>k\<in>set (take (scan_end ks args) ks). upper_ok args k)
       \<and> (\<forall>k\<in>set (drop (scan_end ks args) ks). \<not> upper_ok args k)"
proof (cases "lt args")
  case (Some b)
  show ?thesis
  proof (cases "binarySearch ks b")
    case (found i)
    have st: "scan_end ks args = i" using Some found by (simp add: scan_end_def)
    from found_split[OF s found]
    show ?thesis unfolding st using Some
      by (auto simp: upper_ok_def drop_Suc_set)
  next
    case (closest i)
    have st: "scan_end ks args = i" using Some closest by (simp add: scan_end_def)
    from closest_split[OF s closest]
    show ?thesis unfolding st using Some
      by (auto simp: upper_ok_def)
  qed
next
  case None
  show ?thesis
  proof (cases "lte args")
    case n: None
    then show ?thesis using None by (simp add: scan_end_def upper_ok_def)
  next
    case (Some b)
    show ?thesis
    proof (cases "binarySearch ks b")
      case (found i)
      have st: "scan_end ks args = Suc i" using None Some found by (simp add: scan_end_def)
      from found_split[OF s found]
      show ?thesis unfolding st using None Some
        by (auto simp: upper_ok_def take_Suc_set)
    next
      case (closest i)
      have st: "scan_end ks args = i" using None Some closest by (simp add: scan_end_def)
      from closest_split[OF s closest]
      show ?thesis unfolding st using None Some
        by (auto simp: upper_ok_def)
    qed
  qed
qed

lemma slice_eq_filter:
  assumes lo1: "\<forall>x\<in>set (take s xs). \<not> lo x" and lo2: "\<forall>x\<in>set (drop s xs). lo x"
    and hi1: "\<forall>x\<in>set (take e xs). hi x" and hi2: "\<forall>x\<in>set (drop e xs). \<not> hi x"
  shows "slice s e xs = filter (\<lambda>x. lo x \<and> hi x) xs"
proof -
  have a: "filter (\<lambda>x. lo x \<and> hi x) (take s xs) = []"
    using lo1 by (simp add: filter_empty_conv)
  have "set (take (e - s) (drop s xs)) \<subseteq> set (take e xs)"
  proof (cases "s \<le> e")
    case True
    then have "take (e - s) (drop s xs) = drop s (take e xs)" by (simp add: drop_take)
    then show ?thesis by (simp add: set_drop_subset)
  next
    case False
    then show ?thesis by simp
  qed
  then have b: "filter (\<lambda>x. lo x \<and> hi x) (take (e - s) (drop s xs)) = take (e - s) (drop s xs)"
    using hi1 lo2 by (auto simp: filter_id_conv dest: in_set_takeD)
  have "drop (e - s) (drop s xs) = drop (s + (e - s)) xs" by (simp add: add.commute)
  moreover have "set (drop (s + (e - s)) xs) \<subseteq> set (drop e xs)"
    by (rule set_drop_subset_set_drop) simp
  ultimately have c: "filter (\<lambda>x. lo x \<and> hi x) (drop (e - s) (drop s xs)) = []"
    using hi2 by (auto simp: filter_empty_conv)
  have "xs = take s xs @ take (e - s) (drop s xs) @ drop (e - s) (drop s xs)"
    by (simp only: append_take_drop_id)
  then have "filter (\<lambda>x. lo x \<and> hi x) xs =
      filter (\<lambda>x. lo x \<and> hi x) (take s xs)
      @ filter (\<lambda>x. lo x \<and> hi x) (take (e - s) (drop s xs))
      @ filter (\<lambda>x. lo x \<and> hi x) (drop (e - s) (drop s xs))"
    by (metis filter_append)
  then show ?thesis using a b c by (simp add: slice_def)
qed

text \<open>On a sorted array the slice of a scan is the elements within the bounds.\<close>

lemma t_scan_sorted:
  assumes "sorted_wrt (<) xs"
  shows "t_scan xs args = apply_limit (limit args) (filter (in_bounds args) xs)"
proof -
  have "slice (scan_start xs args) (scan_end xs args) xs
      = filter (\<lambda>k. lower_ok args k \<and> upper_ok args k) xs"
    using scan_start_split[OF assms, of args] scan_end_split[OF assms, of args]
    by (intro slice_eq_filter) blast+
  then show ?thesis by (simp add: t_scan_def in_bounds_def[abs_def])
qed

lemma tv_scan_sorted:
  assumes "sorted_wrt (<) (map key d)"
  shows "tv_scan d args = apply_limit (limit args) (filter (\<lambda>p. in_bounds args (key p)) d)"
proof -
  let ?s = "scan_start (map key d) args" and ?e = "scan_end (map key d) args"
  have st: "(\<forall>k\<in>set (take ?s (map key d)). \<not> lower_ok args k)
       \<and> (\<forall>k\<in>set (drop ?s (map key d)). lower_ok args k)"
    using assms by (rule scan_start_split)
  have en: "(\<forall>k\<in>set (take ?e (map key d)). upper_ok args k)
       \<and> (\<forall>k\<in>set (drop ?e (map key d)). \<not> upper_ok args k)"
    using assms by (rule scan_end_split)
  have tm: "set (take n (map key d)) = key ` set (take n d)" for n by (simp add: take_map)
  have dm: "set (drop n (map key d)) = key ` set (drop n d)" for n by (simp add: drop_map)
  have "slice ?s ?e d = filter (\<lambda>p. lower_ok args (key p) \<and> upper_ok args (key p)) d"
  proof (rule slice_eq_filter)
    show "\<forall>x\<in>set (take ?s d). \<not> lower_ok args (key x)"
      using st unfolding tm by simp
    show "\<forall>x\<in>set (drop ?s d). lower_ok args (key x)"
      using st unfolding dm by simp
    show "\<forall>x\<in>set (take ?e d). upper_ok args (key x)"
      using en unfolding tm by simp
    show "\<forall>x\<in>set (drop ?e d). \<not> upper_ok args (key x)"
      using en unfolding dm by simp
  qed
  then show ?thesis by (simp add: tv_scan_def in_bounds_def[abs_def])
qed

lemma normalize_keeps_limit: "limit (normalizeSubspaceScanArgs P args) = limit args"
  by (simp add: normalizeSubspaceScanArgs_def split: option.splits)

lemma prepend_less_iff: "(P @ a < P @ b) = (a < (b :: 'x::linorder list))"
  by (induction P) simp_all

lemma removePrefix_sorted:
  assumes "sorted_wrt (<) (map key pairs)"
    and "\<forall>p\<in>set pairs. take (length P) (key p) = P"
  shows "sorted_wrt (<) (map key (removePrefixFromTupleValuePairs P pairs))"
  using assms
proof (induction pairs)
  case Nil
  then show ?case by (simp add: removePrefixFromTupleValuePairs_def)
next
  case (Cons p ps)
  have ih: "sorted_wrt (<) (map key (removePrefixFromTupleValuePairs P ps))"
    using Cons by simp
  have "drop (length P) (key p) < drop (length P) (key q)" if "q \<in> set ps" for q
  proof -
    have "key p < key q" using Cons.prems(1) that by auto
    moreover have "key p = P @ drop (length P) (key p)"
      using Cons.prems(2) by (metis append_take_drop_id list.set_intros(1))
    moreover have "key q = P @ drop (length P) (key q)"
      using Cons.prems(2) that by (metis append_take_drop_id list.set_intros(2))
    ultimately show ?thesis using prepend_less_iff by metis
  qed
  then show ?case
    using ih by (auto simp: removePrefixFromTupleValuePairs_def removePrefixFromTuple_def)
qed

text \<open>
  What a transaction's \<open>scan\<close> returns, for every argument: the engine's pairs with the
  prefix taken off, overlaid with the sets that \<open>tv.scan\<close> finds in the set buffer and
  then with the removes that \<open>t.scan\<close> finds in the remove buffer, as a sorted array.
  The engine is taken to answer as the storage contract says: sorted pairs, all under
  the transaction's prefix.
\<close>

lemma scan_overlays_buffers:
  assumes "\<not> committed tx" and "\<not> canceled tx"
    and "db_scan (tx_db tx) (normalizeSubspaceScanArgs (tx_subspacePrefix tx) args)
           (Some (tx_id tx)) w = (Inr pairs, w')"
    and "sorted_wrt (<) (map key pairs)"
    and "\<forall>p\<in>set pairs. take (length (tx_subspacePrefix tx)) (key p) = tx_subspacePrefix tx"
  shows "\<exists>result. TupleTransaction_scan tx args w = (Inr result, w')
       \<and> sorted_wrt (<) (map key result)
       \<and> (\<forall>k. tv_get result k =
            (if k \<in> removePrefixFromTuple (tx_subspacePrefix tx) `
                    set (t_scan (w_remove (writes tx))
                           (normalizeSubspaceScanArgs (tx_subspacePrefix tx) args))
             then None
             else case map_of (rev (map (\<lambda>p. (removePrefixFromTuple (tx_subspacePrefix tx) (key p), val p))
                       (tv_scan (w_set (writes tx))
                          (normalizeSubspaceScanArgs (tx_subspacePrefix tx) args)))) k of
                    Some v \<Rightarrow> Some v
                  | None \<Rightarrow> tv_get (removePrefixFromTupleValuePairs (tx_subspacePrefix tx) pairs) k))"
proof -
  let ?P = "tx_subspacePrefix tx"
  let ?A = "normalizeSubspaceScanArgs ?P args"
  let ?r0 = "removePrefixFromTupleValuePairs ?P pairs"
  let ?sets = "tv_scan (w_set (writes tx)) ?A"
  let ?removes = "t_scan (w_remove (writes tx)) ?A"
  let ?r1 = "foldl (\<lambda>r p. tv_set r (removePrefixFromTuple ?P (key p)) (val p)) ?r0 ?sets"
  let ?r2 = "foldl (\<lambda>r t. tv_remove r (removePrefixFromTuple ?P t)) ?r1 ?removes"
  have ca: "checkActive tx = Inr ()" using assms(1,2) by (simp add: checkActive_def)
  have run: "TupleTransaction_scan tx args w = (Inr ?r2, w')"
    using ca assms(3) by (simp add: TupleTransaction_scan_def Let_def)
  have s0: "sorted_wrt (<) (map key ?r0)"
    using assms(4,5) by (rule removePrefix_sorted)
  have f1: "sorted_wrt (<) (map key ?r1)"
    and g1: "tv_get ?r1 k =
         (case map_of (rev (map (\<lambda>p. (removePrefixFromTuple ?P (key p), val p)) ?sets)) k of
            Some v \<Rightarrow> Some v | None \<Rightarrow> tv_get ?r0 k)" for k
    using foldl_tv_set[OF s0, of "removePrefixFromTuple ?P" ?sets k] by simp_all
  have f2: "sorted_wrt (<) (map key ?r2)"
    and g2: "tv_get ?r2 k =
         (if k \<in> removePrefixFromTuple ?P ` set ?removes then None else tv_get ?r1 k)" for k
    using foldl_tv_remove[OF f1, of "removePrefixFromTuple ?P" ?removes k] by simp_all
  show ?thesis
    using run f2 g2 g1 by (intro exI[of _ ?r2]) simp
qed

text \<open>
  Without a limit, the sets and removes overlaid are exactly the buffered ones whose
  key lies within the bounds handed to the engine.
\<close>

lemma buffer_scans_without_limit:
  assumes "buffers_sorted (writes tx)" and "limit args = None"
  shows "tv_scan (w_set (writes tx)) (normalizeSubspaceScanArgs P args)
           = filter (\<lambda>p. in_bounds (normalizeSubspaceScanArgs P args) (key p)) (w_set (writes tx))
       \<and> t_scan (w_remove (writes tx)) (normalizeSubspaceScanArgs P args)
           = filter (in_bounds (normalizeSubspaceScanArgs P args)) (w_remove (writes tx))"
  using assms
  by (simp add: buffers_sorted_def tv_scan_sorted t_scan_sorted normalize_keeps_limit
      apply_limit_def)

subsection \<open>Scans with a limit\<close>

text \<open>
  C1. A transaction's \<open>scan\<close> is to return the engine's result overlaid with every
  buffered set and every buffered remove in range, sorted, and cut to \<open>limit\<close>. Without
  a limit it does (\<open>scan_overlays_buffers\<close>, \<open>buffer_scans_without_limit\<close>). With a limit
  the code does not: the limit goes into each of the three scans (the engine's, the set
  buffer's, the remove buffer's) and the merged list is never cut. First input: the
  engine holds \<open>([1], 10)\<close>, the transaction has set \<open>([2], 20)\<close>, and \<open>scan\<close> with
  \<open>limit = 1\<close> returns two pairs. Second input: the engine holds \<open>([2], 20)\<close>, the
  transaction has removed \<open>[1]\<close> and \<open>[2]\<close>, and \<open>scan\<close> with \<open>limit = 1\<close> still returns
  \<open>([2], 20)\<close>, because only the first buffered remove in range is applied.
\<close>

theorem scan_with_limit_returns_too_much:
  "TupleTransaction_scan (run_calls memTx [SetCall [Val 2] 20])
      (no_bounds\<lparr>limit := Some 1\<rparr>) [\<lparr>key = [Val 1], val = 10\<rparr>]
     = (Inr [\<lparr>key = [Val 1], val = 10\<rparr>, \<lparr>key = [Val 2], val = 20\<rparr>],
        [\<lparr>key = [Val 1], val = 10\<rparr>])
   \<and> TupleTransaction_scan (run_calls memTx [RemoveCall [Val 1], RemoveCall [Val 2]])
      (no_bounds\<lparr>limit := Some 1\<rparr>) [\<lparr>key = [Val 2], val = 20\<rparr>]
     = (Inr [\<lparr>key = [Val 2], val = 20\<rparr>], [\<lparr>key = [Val 2], val = 20\<rparr>])"
  by code_simp

end
